theory Spec2Isabelle
  imports Main "HOL-Library.Word"
begin

unbundle bit_operations_syntax

section \<open>Python values used by the engine\<close>

text \<open>
  Every exception the modelled code can raise is a value. \<open>ValidationError\<close> and
  \<open>NotFound\<close> are the two REST framework exceptions the engine raises itself; the
  others are the interpreter's own (a failed \<^verbatim>\<open>assert\<close>, a division by zero, a
  subscript of \<^verbatim>\<open>None\<close>, a missing attribute, an index out of range, a
  \<^verbatim>\<open>StopIteration\<close> escaping a generator, a file that does not exist, a quotient
  of integers too large for a float).
  \<open>ExternalError\<close> stands for a failure of a collaborator outside the engine
  (blob store, codec).
\<close>

datatype error =
    ValidationError
  | NotFound
  | AssertionError
  | ZeroDivisionError
  | ValueError
  | TypeError
  | AttributeError
  | IndexError
  | RuntimeError
  | FileNotFoundError
  | OverflowError
  | ExternalError

type_synonym byte = "8 word"
type_synonym bytes = "byte list"

text \<open>\<^verbatim>\<open>xs.index(x)\<close>: the first position of \<open>x\<close>; only called after a membership test.\<close>

fun index_of :: "'a \<Rightarrow> 'a list \<Rightarrow> nat" where
  "index_of x [] = 0"
| "index_of x (y # ys) = (if x = y then 0 else Suc (index_of x ys))"

section \<open>Data model\<close>

datatype segment_type = RANGE | SPECIFIC_FRAMES
datatype storage_method = CACHE | FILE_SYSTEM
datatype data_choice = VIDEO | IMAGESET
datatype dimension_type = DIM_2D | DIM_3D
datatype frame_quality = COMPRESSED | ORIGINAL

text \<open>
  \<^verbatim>\<open>models.Data\<close> as the engine reads it. \<open>frame_step\<close> is the value of
  \<^verbatim>\<open>get_frame_step()\<close>, \<open>data_size\<close> the field \<^verbatim>\<open>size\<close>, and \<open>video\<close> holds
  the width and height of the video descriptor when the data has one
  (\<^verbatim>\<open>hasattr(db_data, "video")\<close>).
\<close>

record data =
  data_id :: int
  start_frame :: int
  stop_frame :: int
  frame_step :: int
  chunk_size :: int
  data_size :: int
  image_quality :: int
  storage_method :: storage_method
  compressed_chunk_type :: data_choice
  original_chunk_type :: data_choice
  video :: "(int \<times> int) option"

text \<open>
  \<^verbatim>\<open>models.Segment\<close>. \<open>frame_set\<close> is \<^verbatim>\<open>list(db_segment.frame_set)\<close>: the frame
  ids of the segment in the order in which the container is iterated.
\<close>

record segment =
  segment_id :: int
  segment_type :: segment_type
  segment_start_frame :: int
  frame_count :: int
  frame_set :: "int list"

section \<open>Segment and task frame providers: addressing\<close>

text \<open>
  \<^verbatim>\<open>SegmentFrameProvider.validate_frame_number\<close>: membership in the frame sequence,
  then \<^verbatim>\<open>divmod(frame_sequence.index(frame_number), chunk_size)\<close>.
\<close>

definition SegmentFrameProvider_validate_frame_number ::
  "data \<Rightarrow> segment \<Rightarrow> int \<Rightarrow> error + (int \<times> int \<times> int)" where
  "SegmentFrameProvider_validate_frame_number db_data db_segment frame_number =
     (let frame_sequence = frame_set db_segment in
      if frame_number \<notin> set frame_sequence then Inl ValidationError
      else if chunk_size db_data = 0 then Inl ZeroDivisionError
      else
        let idx = int (index_of frame_number frame_sequence);
            chunk_number = idx div chunk_size db_data;
            frame_position = idx mod chunk_size db_data
        in Inr (frame_number, chunk_number, frame_position))"

text \<open>\<^verbatim>\<open>get_chunk_number\<close> of both providers: \<^verbatim>\<open>int(frame_number) // chunk_size\<close>.\<close>

definition TaskFrameProvider_get_chunk_number :: "data \<Rightarrow> int \<Rightarrow> error + int" where
  "TaskFrameProvider_get_chunk_number db_data frame_number =
     (if chunk_size db_data = 0 then Inl ZeroDivisionError
      else Inr (frame_number div chunk_size db_data))"

definition SegmentFrameProvider_get_chunk_number :: "data \<Rightarrow> int \<Rightarrow> error + int" where
  "SegmentFrameProvider_get_chunk_number db_data frame_number =
     (if chunk_size db_data = 0 then Inl ZeroDivisionError
      else Inr (frame_number div chunk_size db_data))"

section \<open>Media cache\<close>

text \<open>
  \<^verbatim>\<open>MediaCache.get_checksum\<close> is \<^verbatim>\<open>zlib.crc32\<close>: the CRC-32 of the byte string
  (reflected polynomial \<open>0xEDB88320\<close>, initial value and final complement
  \<open>0xFFFFFFFF\<close>), an unsigned 32-bit integer.
\<close>

definition crc32_shift :: "32 word \<Rightarrow> 32 word" where
  "crc32_shift c = (if bit c 0 then drop_bit 1 c XOR 0xEDB88320 else drop_bit 1 c)"

definition crc32_update :: "byte \<Rightarrow> 32 word \<Rightarrow> 32 word" where
  "crc32_update b c = (crc32_shift ^^ 8) (c XOR ucast b)"

definition crc32 :: "bytes \<Rightarrow> int" where
  "crc32 val = uint (NOT (fold crc32_update val 0xFFFFFFFF))"

definition get_checksum :: "bytes \<Rightarrow> int" where
  "get_checksum val = crc32 val"

text \<open>
  The first component of a cache item or of a producer's result: an \<^verbatim>\<open>io.BytesIO\<close>
  object or a plain \<^verbatim>\<open>bytes\<close> value (the case the lookup path tests with
  \<^verbatim>\<open>isinstance\<close>); \<open>None\<close> is Python's \<^verbatim>\<open>None\<close>.
  \<open>getbuffer\<close> is \<^verbatim>\<open>item[0].getbuffer() if isinstance(item[0], io.BytesIO) else item[0]\<close>.
  \<open>truthy\<close> is the truth value Python gives the object in \<^verbatim>\<open>if item_data[0]:\<close>:
  \<^verbatim>\<open>io.BytesIO\<close> defines neither \<^verbatim>\<open>__bool__\<close> nor \<^verbatim>\<open>__len__\<close>, so a buffer
  object is true whatever it holds; \<^verbatim>\<open>None\<close> and the empty \<^verbatim>\<open>bytes\<close> are false.
\<close>

datatype blob = BytesIO bytes | RawBytes bytes

fun getbuffer :: "blob \<Rightarrow> bytes" where
  "getbuffer (BytesIO bs) = bs"
| "getbuffer (RawBytes bs) = bs"

fun truthy :: "blob option \<Rightarrow> bool" where
  "truthy None = False"
| "truthy (Some (BytesIO bs)) = True"
| "truthy (Some (RawBytes bs)) = (bs \<noteq> [])"

text \<open>
  A stored item is the tuple \<open>(data, mime, checksum)\<close>. A checksum of \<open>None\<close> is
  what the lookup path reads from a two-element tuple
  (\<^verbatim>\<open>item[2] if len(item) == 3 else None\<close>). The backend holds pickled items; an
  entry that fails to unpickle makes \<^verbatim>\<open>self._cache.get\<close> raise
  \<^verbatim>\<open>pickle.UnpicklingError\<close>, which the cache catches and reads as \<^verbatim>\<open>None\<close>.
\<close>

datatype cache_item =
  CacheItem (item_data: blob) (item_mime: "string option") (item_checksum: "int option")

datatype entry = Pickled cache_item | Unpicklable

type_synonym 'k cache = "'k \<rightharpoonup> entry"

type_synonym data_with_mime = "blob option \<times> string option"

text \<open>
  What a \<^verbatim>\<open>create_callback\<close> returns: \<^verbatim>\<open>None\<close> or a pair. A producer runs
  against the cache (the preview producer reads frames through it) and may raise.
\<close>

datatype produced = ReturnsNone | Returns "blob option" "string option"

type_synonym 'k producer = "'k cache \<Rightarrow> (error + produced) \<times> 'k cache"

text \<open>The key families, each with the values interpolated into its f-string.\<close>

datatype key =
    TaskChunkKey int int frame_quality
  | SegmentChunkKey int int frame_quality
  | JobChunkKey int int frame_quality
  | SegmentPreviewKey int
  | CloudStoragePreviewKey int
  | ContextImageKey int int

definition cache_get :: "'k cache \<Rightarrow> 'k \<Rightarrow> cache_item option" where
  "cache_get c key =
     (case c key of
        Some (Pickled item) \<Rightarrow> Some item
      | Some Unpicklable \<Rightarrow> None
      | None \<Rightarrow> None)"

text \<open>
  The inner function \<^verbatim>\<open>create_item\<close> of \<^verbatim>\<open>_get_or_set_cache_item\<close>: run the
  producer; \<^verbatim>\<open>item_data[0]\<close> on a \<^verbatim>\<open>None\<close> result is a \<^verbatim>\<open>TypeError\<close>; a true
  data value is checksummed through \<^verbatim>\<open>getbuffer()\<close> (which \<^verbatim>\<open>bytes\<close> does not
  have) and stored; a false one is returned without a store.
\<close>

definition create_item ::
  "'k cache \<Rightarrow> 'k \<Rightarrow> 'k producer
     \<Rightarrow> (error + (blob option \<times> string option \<times> int option)) \<times> 'k cache" where
  "create_item c key create_callback =
     (case create_callback c of
        (Inl e, c') \<Rightarrow> (Inl e, c')
      | (Inr ReturnsNone, c') \<Rightarrow> (Inl TypeError, c')
      | (Inr (Returns d mime), c') \<Rightarrow>
          if truthy d then
            (case d of
               Some (BytesIO bs) \<Rightarrow>
                 (Inr (d, mime, Some (get_checksum bs)),
                  c'(key \<mapsto> Pickled (CacheItem (BytesIO bs) mime (Some (get_checksum bs)))))
             | _ \<Rightarrow> (Inl AttributeError, c'))
          else (Inr (d, mime, None), c'))"

text \<open>\<^verbatim>\<open>MediaCache._get_or_set_cache_item\<close>.\<close>

definition get_or_set_cache_item ::
  "'k cache \<Rightarrow> 'k \<Rightarrow> 'k producer \<Rightarrow> (error + data_with_mime) \<times> 'k cache" where
  "get_or_set_cache_item c key create_callback =
     (let fresh = (\<lambda>_::unit.
            case create_item c key create_callback of
              (Inl e, c') \<Rightarrow> (Inl e, c')
            | (Inr (d, mime, _), c') \<Rightarrow> (Inr (d, mime), c'))
      in case cache_get c key of
           None \<Rightarrow> fresh ()
         | Some item \<Rightarrow>
             if item_checksum item \<noteq> Some (get_checksum (getbuffer (item_data item)))
             then fresh ()
             else (Inr (Some (item_data item), item_mime item), c))"

text \<open>\<^verbatim>\<open>MediaCache._get\<close>: lookup only.\<close>

definition cache_lookup :: "'k cache \<Rightarrow> 'k \<Rightarrow> cache_item option" where
  "cache_lookup c key = cache_get c key"

section \<open>Frames, chunk writers and chunk readers\<close>

text \<open>
  Frames are kept symbolic. \<open>RawFrame f\<close> is what the media reader yields for frame id
  \<open>f\<close> of the task; \<open>Encoded bs\<close> is an encoded image held in a byte buffer. The other
  constructors record the conversions the engine applies: \<^verbatim>\<open>frame.to_image()\<close>,
  \<^verbatim>\<open>frame.resize(size)\<close>, \<^verbatim>\<open>_av_frame_to_png_bytes(frame)\<close>, \<^verbatim>\<open>Image.open(frame)\<close>,
  \<^verbatim>\<open>frame.to_ndarray(format="bgr24")\<close>, the array of an opened image with its first
  three channels reversed, and the steps of the preview pipeline
  (\<^verbatim>\<open>PIL.ImageOps.exif_transpose\<close>, \<^verbatim>\<open>thumbnail(size)\<close>, \<^verbatim>\<open>convert("RGB")\<close>).
\<close>

datatype frame =
    RawFrame int
  | Encoded bytes
  | ToImage frame
  | Resized "int \<times> int" frame
  | PngBytes frame
  | ImageOpen frame
  | ToNdarray frame
  | BgrArray frame
  | ExifTranspose frame
  | Thumbnail "int \<times> int" frame
  | ConvertRGB frame

datatype frame_output_type = BUFFER | PIL | NUMPY_ARRAY
datatype reader_class = ZipReader | VideoReader
datatype writer_class =
  Mpeg4ChunkWriter | Mpeg4CompressedChunkWriter | ZipChunkWriter | ZipCompressedChunkWriter

text \<open>
  One call of \<^verbatim>\<open>save_as_chunk\<close>: the writer class, the image quality and the optional
  \<^verbatim>\<open>dimension\<close> given to its constructor, and the optional keyword arguments of the call.
\<close>

record writer_call =
  writer_class :: writer_class
  writer_quality :: int
  writer_dimension :: "dimension_type option"
  compress_frames :: "bool option"
  zip_compress_level :: "int option"

text \<open>
  The collaborators of the engine that are not part of it, as parameters:
  the chunk writers (\<open>save_as_chunk\<close>), the chunk readers wrapped in a
  \<^verbatim>\<open>RandomAccessIterator\<close> (\<open>open_chunk\<close>, yielding the frames of a chunk with their
  names), the size of a decoded image, the bytes of the 1x1 RGB image saved in the
  writer's image format, \<^verbatim>\<open>mimetypes.guess_type\<close>, the paths of the precomputed chunk
  files (\<^verbatim>\<open>get_compressed_segment_chunk_path\<close> / \<^verbatim>\<open>get_original_segment_chunk_path\<close>,
  by quality, chunk and segment id), the files on disk, the order in which the
  interpreter iterates over \<^verbatim>\<open>set(xs)\<close> (unspecified by the language), the bytes
  \<^verbatim>\<open>image.save(buf, format=...)\<close> writes, and the bundled 3D preview asset.
\<close>

record env =
  save_as_chunk :: "writer_call \<Rightarrow> frame list \<Rightarrow> error + bytes"
  open_chunk :: "reader_class \<Rightarrow> blob option \<Rightarrow> error + (frame \<times> string) list"
  image_size :: "frame \<Rightarrow> int \<times> int"
  dummy_frame :: bytes
  guess_type :: "string \<Rightarrow> string option"
  segment_chunk_path :: "frame_quality \<Rightarrow> int \<Rightarrow> int \<Rightarrow> string"
  files :: "string \<rightharpoonup> bytes"
  iter_set :: "int list \<Rightarrow> int list"
  save_image :: "frame \<Rightarrow> string \<Rightarrow> bytes"
  preview_3d_asset :: bytes

record task =
  task_id :: int
  task_data :: data
  dimension :: dimension_type
  segment_set :: "segment list"

text \<open>Python's \<^verbatim>\<open>xs[i:j]\<close> and \<^verbatim>\<open>range(a, b, s)\<close> (for \<open>s \<noteq> 0\<close>).\<close>

definition py_slice :: "'a list \<Rightarrow> int \<Rightarrow> int \<Rightarrow> 'a list" where
  "py_slice xs i j =
     (let n = int (length xs);
          lo = (if i < 0 then max (i + n) 0 else min i n);
          hi = (if j < 0 then max (j + n) 0 else min j n)
      in take (nat (hi - lo)) (drop (nat lo) xs))"

definition py_range :: "int \<Rightarrow> int \<Rightarrow> int \<Rightarrow> int list" where
  "py_range a b s =
     (if 0 < s then map (\<lambda>i. a + int i * s) [0 ..< nat ((b - a + s - 1) div s)]
      else if s < 0 then map (\<lambda>i. a + int i * s) [0 ..< nat ((a - b - s - 1) div (- s))]
      else [])"

text \<open>
  Python's \<^verbatim>\<open>a / b\<close> on integers gives a float: the quotient rounded to the nearest
  double, ties to the even mantissa. A finite double is \<open>PyFloat m p\<close>, the number
  \<open>m * 2 ^ p\<close>. \<open>bit_length\<close> is \<^verbatim>\<open>int.bit_length\<close>; \<open>floor_log2 n d\<close> is, for
  positive \<open>n\<close> and \<open>d\<close>, the exponent \<open>e\<close> with \<open>2 ^ e \<le> n / d < 2 ^ (e + 1)\<close>
  (\<open>pow2_le e n d\<close> is \<open>2 ^ e \<le> n / d\<close>); the mantissa has 53 bits, fewer below the
  smallest normal exponent \<open>- 1022\<close>, where a quotient too small becomes \<open>0.0\<close>. A
  quotient that rounds to \<open>2 ^ 1024\<close> or more raises \<^verbatim>\<open>OverflowError\<close>, a zero
  divisor \<^verbatim>\<open>ZeroDivisionError\<close>.
\<close>

function bit_length :: "int \<Rightarrow> int" where
  "bit_length n = (if n = 0 then 0 else 1 + bit_length (\<bar>n\<bar> div 2))"
  by pat_completeness auto
termination
  by (relation "measure (\<lambda>n. nat \<bar>n\<bar>)") auto

declare bit_length.simps [simp del]

datatype py_float = PyFloat int int

definition round_half_even :: "int \<Rightarrow> int \<Rightarrow> int" where
  "round_half_even n d =
     (let q = n div d; r = n mod d
      in if 2 * r < d then q
         else if d < 2 * r then q + 1
         else if even q then q else q + 1)"

definition pow2_le :: "int \<Rightarrow> int \<Rightarrow> int \<Rightarrow> bool" where
  "pow2_le e n d = (if 0 \<le> e then d * 2 ^ nat e \<le> n else d \<le> n * 2 ^ nat (- e))"

definition floor_log2 :: "int \<Rightarrow> int \<Rightarrow> int" where
  "floor_log2 n d =
     (let e0 = bit_length n - bit_length d
      in if pow2_le e0 n d then e0 else e0 - 1)"

definition int_true_divide :: "int \<Rightarrow> int \<Rightarrow> error + py_float" where
  "int_true_divide a b =
     (if b = 0 then Inl ZeroDivisionError
      else if a = 0 then Inr (PyFloat 0 0)
      else
        (let n = \<bar>a\<bar>; d = \<bar>b\<bar>;
             e = floor_log2 n d;
             p = max e (- 1022) - 52;
             m = (if 0 \<le> p then round_half_even n (d * 2 ^ nat p)
                  else round_half_even (n * 2 ^ nat (- p)) d)
         in if 1023 < e \<or> (e = 1023 \<and> m = 2 ^ 53) then Inl OverflowError
            else Inr (PyFloat (sgn a * sgn b * m) p)))"

text \<open>\<^verbatim>\<open>math.ceil\<close> of a finite float, an integer.\<close>

fun math_ceil :: "py_float \<Rightarrow> int" where
  "math_ceil (PyFloat m p) =
     (if 0 \<le> p then m * 2 ^ nat p else - ((- m) div 2 ^ nat (- p)))"

text \<open>\<^verbatim>\<open>math.ceil(a / b)\<close>, as both providers compute the last chunk number.\<close>

definition ceil_truediv :: "int \<Rightarrow> int \<Rightarrow> error + int" where
  "ceil_truediv a b =
     (case int_true_divide a b of Inl e \<Rightarrow> Inl e | Inr x \<Rightarrow> Inr (math_ceil x))"

text \<open>
  The ceiling of the exact quotient \<open>a / b\<close>, the number that \<open>ceil (a / b)\<close> names;
  \<open>ceil_truediv\<close> is compared with it.
\<close>

definition ceil_div :: "int \<Rightarrow> int \<Rightarrow> int" where
  "ceil_div a b = - ((- a) div b)"

text \<open>
  \<^verbatim>\<open>get_chunk_mime_type_for_writer\<close>: the compressed writers are subclasses of the
  original ones.
\<close>

fun get_chunk_mime_type_for_writer :: "writer_class \<Rightarrow> string" where
  "get_chunk_mime_type_for_writer ZipChunkWriter = ''application/zip''"
| "get_chunk_mime_type_for_writer ZipCompressedChunkWriter = ''application/zip''"
| "get_chunk_mime_type_for_writer Mpeg4ChunkWriter = ''video/mp4''"
| "get_chunk_mime_type_for_writer Mpeg4CompressedChunkWriter = ''video/mp4''"

text \<open>The table \<^verbatim>\<open>writer_classes\<close> of \<^verbatim>\<open>prepare_chunk\<close> and of the task provider.\<close>

definition writer_classes :: "data \<Rightarrow> frame_quality \<Rightarrow> writer_class" where
  "writer_classes db_data quality =
     (case quality of
        COMPRESSED \<Rightarrow>
          (if compressed_chunk_type db_data = VIDEO then Mpeg4CompressedChunkWriter
           else ZipCompressedChunkWriter)
      | ORIGINAL \<Rightarrow>
          (if original_chunk_type db_data = VIDEO then Mpeg4ChunkWriter else ZipChunkWriter))"

section \<open>Reading raw frames and producing segment chunks\<close>

text \<open>
  Modelled from the spec: the media backends behind \<^verbatim>\<open>_read_raw_frames\<close> (the video
  and image readers, the manifest, the image table) are not part of the sources. The
  generator first asserts that the requested ids are sorted, then yields one raw frame
  per requested id, in request order. It is lazy: the assertion runs at the first pull.
  A \<^verbatim>\<open>StopIteration\<close> raised by \<^verbatim>\<open>next\<close> inside the generator \<^verbatim>\<open>get_frames\<close> leaves
  it as a \<^verbatim>\<open>RuntimeError\<close>.
\<close>

datatype raw_reader = Unstarted "int list" | Started "frame list"

fun reader_next :: "raw_reader \<Rightarrow> error + (frame \<times> raw_reader)" where
  "reader_next (Unstarted frame_ids) =
     (if \<not> sorted frame_ids then Inl AssertionError
      else case frame_ids of
             [] \<Rightarrow> Inl RuntimeError
           | f # fs \<Rightarrow> Inr (RawFrame f, Started (map RawFrame fs)))"
| "reader_next (Started []) = Inl RuntimeError"
| "reader_next (Started (fr # frs)) = Inr (fr, Started frs)"

definition read_raw_frames :: "int list \<Rightarrow> error + frame list" where
  "read_raw_frames frame_ids =
     (if \<not> sorted frame_ids then Inl AssertionError else Inr (map RawFrame frame_ids))"

text \<open>\<^verbatim>\<open>prepare_chunk\<close> with its default \<^verbatim>\<open>dump_unchanged=False\<close>.\<close>

definition prepare_chunk ::
  "env \<Rightarrow> frame list \<Rightarrow> frame_quality \<Rightarrow> task \<Rightarrow> error + (bytes \<times> string)" where
  "prepare_chunk ev task_chunk_frames quality db_task =
     (let db_data = task_data db_task;
          wclass = writer_classes db_data quality;
          img_quality = (if quality = ORIGINAL then 100 else image_quality db_data);
          dim = (if dimension db_task = DIM_3D then Some DIM_3D else None)
      in case save_as_chunk ev
                \<lparr>writer_class = wclass, writer_quality = img_quality, writer_dimension = dim,
                 compress_frames = None, zip_compress_level = None\<rparr> task_chunk_frames of
           Inl e \<Rightarrow> Inl e
         | Inr buffer \<Rightarrow> Inr (buffer, get_chunk_mime_type_for_writer wclass))"

definition prepare_range_segment_chunk ::
  "env \<Rightarrow> task \<Rightarrow> segment \<Rightarrow> int \<Rightarrow> frame_quality \<Rightarrow> error + (bytes \<times> string)" where
  "prepare_range_segment_chunk ev db_task db_segment chunk_number quality =
     (let db_data = task_data db_task;
          chunk_frame_ids = py_slice (frame_set db_segment)
             (chunk_size db_data * chunk_number) (chunk_size db_data * (chunk_number + 1))
      in case read_raw_frames chunk_frame_ids of
           Inl e \<Rightarrow> Inl e
         | Inr frame_iter \<Rightarrow> prepare_chunk ev frame_iter quality db_task)"

text \<open>
  The generator \<^verbatim>\<open>get_frames\<close> of \<^verbatim>\<open>prepare_masked_range_segment_chunk\<close>, run to its
  end: the loop over \<^verbatim>\<open>range(db_data.chunk_size)\<close> is the recursion over the list of
  loop indices, the raw reader is threaded through, and \<^verbatim>\<open>break\<close> ends the list.
\<close>

fun get_frames ::
  "env \<Rightarrow> data \<Rightarrow> int \<Rightarrow> int list \<Rightarrow> int list \<Rightarrow> raw_reader \<Rightarrow> error + frame list" where
  "get_frames ev db_data chunk_number chunk_frame_ids [] read_frame_iter = Inr []"
| "get_frames ev db_data chunk_number chunk_frame_ids (i # rest) read_frame_iter =
     (let frame_idx = start_frame db_data + chunk_number * chunk_size db_data
                        + i * frame_step db_data
      in if stop_frame db_data < frame_idx then Inr []
         else if frame_idx \<in> set chunk_frame_ids then
           (case reader_next read_frame_iter of
              Inl e \<Rightarrow> Inl e
            | Inr (raw, read_frame_iter') \<Rightarrow>
                (let fr = (case video db_data of
                             Some frame_size \<Rightarrow>
                               (let img = ToImage raw
                                in if image_size ev img \<noteq> frame_size
                                   then Resized frame_size img else img)
                           | None \<Rightarrow> raw)
                 in case get_frames ev db_data chunk_number chunk_frame_ids rest
                           read_frame_iter' of
                      Inl e \<Rightarrow> Inl e
                    | Inr frs \<Rightarrow> Inr (fr # frs)))
         else
           (case get_frames ev db_data chunk_number chunk_frame_ids rest read_frame_iter of
              Inl e \<Rightarrow> Inl e
            | Inr frs \<Rightarrow> Inr (Encoded (dummy_frame ev) # frs)))"

definition prepare_masked_range_segment_chunk ::
  "env \<Rightarrow> task \<Rightarrow> segment \<Rightarrow> int \<Rightarrow> frame_quality \<Rightarrow> error + (bytes \<times> string)" where
  "prepare_masked_range_segment_chunk ev db_task db_segment chunk_number quality =
     (let db_data = task_data db_task;
          chunk_frame_ids = py_slice (frame_set db_segment)
             (chunk_size db_data * chunk_number) (chunk_size db_data * (chunk_number + 1))
      in case get_frames ev db_data chunk_number chunk_frame_ids
                (map int [0 ..< nat (chunk_size db_data)]) (Unstarted chunk_frame_ids) of
           Inl e \<Rightarrow> Inl e
         | Inr frame_iter \<Rightarrow>
             (case save_as_chunk ev
                     \<lparr>writer_class = ZipCompressedChunkWriter,
                      writer_quality = image_quality db_data,
                      writer_dimension = Some (dimension db_task),
                      compress_frames = None, zip_compress_level = Some 1\<rparr> frame_iter of
                Inl e \<Rightarrow> Inl e
              | Inr buff \<Rightarrow> Inr (buff, get_chunk_mime_type_for_writer ZipCompressedChunkWriter)))"

definition prepare_segment_chunk ::
  "env \<Rightarrow> task \<Rightarrow> segment \<Rightarrow> int \<Rightarrow> frame_quality \<Rightarrow> error + (bytes \<times> string)" where
  "prepare_segment_chunk ev db_task db_segment chunk_number quality =
     (case segment_type db_segment of
        RANGE \<Rightarrow> prepare_range_segment_chunk ev db_task db_segment chunk_number quality
      | SPECIFIC_FRAMES \<Rightarrow>
          prepare_masked_range_segment_chunk ev db_task db_segment chunk_number quality)"

text \<open>A producer callback that wraps a chunk producer: it leaves the cache alone.\<close>

definition as_producer :: "error + (bytes \<times> string) \<Rightarrow> 'k producer" where
  "as_producer r c =
     (case r of
        Inl e \<Rightarrow> (Inl e, c)
      | Inr (buff, mime_type) \<Rightarrow> (Inr (Returns (Some (BytesIO buff)) (Some mime_type)), c))"

definition get_segment_chunk ::
  "env \<Rightarrow> task \<Rightarrow> segment \<Rightarrow> int \<Rightarrow> frame_quality \<Rightarrow> key cache
     \<Rightarrow> (error + data_with_mime) \<times> key cache" where
  "get_segment_chunk ev db_task db_segment chunk_number quality c =
     get_or_set_cache_item c (SegmentChunkKey (segment_id db_segment) chunk_number quality)
       (as_producer (prepare_segment_chunk ev db_task db_segment chunk_number quality))"

definition get_selective_job_chunk ::
  "env \<Rightarrow> task \<Rightarrow> int \<Rightarrow> segment \<Rightarrow> int \<Rightarrow> frame_quality \<Rightarrow> key cache
     \<Rightarrow> (error + data_with_mime) \<times> key cache" where
  "get_selective_job_chunk ev db_task job_id db_segment chunk_number quality c =
     get_or_set_cache_item c (JobChunkKey job_id chunk_number quality)
       (as_producer
          (prepare_masked_range_segment_chunk ev db_task db_segment chunk_number quality))"

section \<open>Chunk loader\<close>

text \<open>
  A \<^verbatim>\<open>RandomAccessIterator\<close> over an opened chunk reader: the frames it gives access to,
  with their names. \<open>reader_handle\<close> identifies the object. The loader's \<open>history\<close>
  records, in order, every reader the loader has opened and every reader it has closed;
  it is not a field of the Python object.
\<close>

record reader =
  reader_handle :: nat
  reader_items :: "(frame \<times> string) list"

datatype event = Opened nat int | Closed nat

record chunk_loader =
  chunk_id :: "int option"
  chunk_reader :: "reader option"
  reader_class :: reader_class
  history :: "event list"

definition ChunkLoader_init :: "reader_class \<Rightarrow> chunk_loader" where
  "ChunkLoader_init rc =
     \<lparr>chunk_id = None, chunk_reader = None, reader_class = rc, history = []\<rparr>"

text \<open>
  \<^verbatim>\<open>_ChunkLoader.unload\<close>. A \<^verbatim>\<open>RandomAccessIterator\<close> object is true in
  \<^verbatim>\<open>if self.chunk_reader:\<close>; only \<^verbatim>\<open>None\<close> is false.
\<close>

definition unload :: "chunk_loader \<Rightarrow> chunk_loader" where
  "unload l =
     (case chunk_reader l of
        Some r \<Rightarrow> l\<lparr>chunk_id := None, chunk_reader := None,
                    history := history l @ [Closed (reader_handle r)]\<rparr>
      | None \<Rightarrow> l\<lparr>chunk_id := None\<rparr>)"

text \<open>
  \<^verbatim>\<open>_ChunkLoader.load\<close>. \<open>read_chunk\<close> is the abstract method, run against the
  state \<open>w\<close> it works on (the cache, for a buffer loader). The chunk id is assigned
  before the chunk is read, so an exception from \<open>read_chunk\<close> or from the reader's
  constructor leaves the loader with the new id and no reader.
\<close>

definition load ::
  "env \<Rightarrow> (int \<Rightarrow> 'w \<Rightarrow> (error + data_with_mime) \<times> 'w) \<Rightarrow> int \<Rightarrow> chunk_loader \<Rightarrow> 'w
     \<Rightarrow> (error + reader option) \<times> chunk_loader \<times> 'w" where
  "load ev read_chunk cid l w =
     (if chunk_id l \<noteq> Some cid then
        (let l1 = (unload l)\<lparr>chunk_id := Some cid\<rparr>
         in case read_chunk cid w of
              (Inl e, w') \<Rightarrow> (Inl e, l1, w')
            | (Inr (chunk_data, _), w') \<Rightarrow>
                (case open_chunk ev (reader_class l1) chunk_data of
                   Inl e \<Rightarrow> (Inl e, l1, w')
                 | Inr items \<Rightarrow>
                     (let r = \<lparr>reader_handle = length (history l1), reader_items = items\<rparr>;
                          l2 = l1\<lparr>chunk_reader := Some r,
                                 history := history l1 @ [Opened (reader_handle r) cid]\<rparr>
                      in (Inr (chunk_reader l2), l2, w'))))
      else (Inr (chunk_reader l), l, w))"

text \<open>The readers open after a history, and the histories with at most one at any time.\<close>

fun apply_event :: "nat list \<Rightarrow> event \<Rightarrow> nat list" where
  "apply_event hs (Opened h cid) = hs @ [h]"
| "apply_event hs (Closed h) = removeAll h hs"

definition open_readers :: "event list \<Rightarrow> nat list" where
  "open_readers es = foldl apply_event [] es"

definition single_resident :: "event list \<Rightarrow> bool" where
  "single_resident es = (\<forall>n \<le> length es. length (open_readers (take n es)) \<le> 1)"

text \<open>
  The loader's representation invariant: its history never had two readers open, and
  the readers open now are exactly the one the loader holds, if any.
\<close>

definition loader_inv :: "chunk_loader \<Rightarrow> bool" where
  "loader_inv l \<longleftrightarrow>
     single_resident (history l)
     \<and> open_readers (history l)
         = (case chunk_reader l of None \<Rightarrow> [] | Some r \<Rightarrow> [reader_handle r])"

text \<open>A sequence of calls on one loader; a failed call leaves the loader as the exception does.\<close>

datatype loader_call = Load int | Unload

fun run_calls ::
  "env \<Rightarrow> (int \<Rightarrow> 'w \<Rightarrow> (error + data_with_mime) \<times> 'w) \<Rightarrow> loader_call list
     \<Rightarrow> chunk_loader \<Rightarrow> 'w \<Rightarrow> chunk_loader \<times> 'w" where
  "run_calls ev read_chunk [] l w = (l, w)"
| "run_calls ev read_chunk (Load cid # calls) l w =
     (case load ev read_chunk cid l w of (_, l', w') \<Rightarrow> run_calls ev read_chunk calls l' w')"
| "run_calls ev read_chunk (Unload # calls) l w = run_calls ev read_chunk calls (unload l) w"

section \<open>Segment frame provider\<close>

datatype 'a data_with_meta =
  DataWithMeta (meta_data: 'a) (meta_mime: "string option") (meta_checksum: "int option")

text \<open>
  \<^verbatim>\<open>SegmentFrameProvider.__init__\<close>: one loader per quality, with the reader class of
  the chunk type of that quality.
\<close>

definition reader_class_of :: "data_choice \<Rightarrow> reader_class" where
  "reader_class_of ct = (case ct of IMAGESET \<Rightarrow> ZipReader | VIDEO \<Rightarrow> VideoReader)"

definition SegmentFrameProvider_init :: "data \<Rightarrow> frame_quality \<Rightarrow> chunk_loader" where
  "SegmentFrameProvider_init db_data quality =
     (case quality of
        COMPRESSED \<Rightarrow> ChunkLoader_init (reader_class_of (compressed_chunk_type db_data))
      | ORIGINAL \<Rightarrow> ChunkLoader_init (reader_class_of (original_chunk_type db_data)))"

text \<open>
  \<^verbatim>\<open>read_chunk\<close> of the loader the constructor builds: the cache's
  \<^verbatim>\<open>get_segment_chunk\<close> when the storage method is \<^verbatim>\<open>CACHE\<close>
  (\<^verbatim>\<open>_BufferChunkLoader\<close>), the precomputed file otherwise (\<^verbatim>\<open>_FileChunkLoader\<close>).
\<close>

definition read_chunk_of ::
  "env \<Rightarrow> task \<Rightarrow> segment \<Rightarrow> frame_quality \<Rightarrow> int \<Rightarrow> key cache
     \<Rightarrow> (error + data_with_mime) \<times> key cache" where
  "read_chunk_of ev db_task db_segment quality chunk_idx c =
     (if storage_method (task_data db_task) = CACHE
      then get_segment_chunk ev db_task db_segment chunk_idx quality c
      else
        (let chunk_path = segment_chunk_path ev quality chunk_idx (segment_id db_segment)
         in case files ev chunk_path of
              None \<Rightarrow> (Inl FileNotFoundError, c)
            | Some content \<Rightarrow> (Inr (Some (BytesIO content), guess_type ev chunk_path), c)))"

definition SegmentFrameProvider_validate_chunk_number ::
  "data \<Rightarrow> segment \<Rightarrow> int \<Rightarrow> error + int" where
  "SegmentFrameProvider_validate_chunk_number db_data db_segment chunk_number =
     (let segment_size = frame_count db_segment;
          start_chunk = 0
      in case ceil_truediv segment_size (chunk_size db_data) of
           Inl e \<Rightarrow> Inl e
         | Inr stop_chunk \<Rightarrow>
             if \<not> (start_chunk \<le> chunk_number \<and> chunk_number \<le> stop_chunk)
             then Inl ValidationError else Inr chunk_number)"

definition SegmentFrameProvider_get_chunk ::
  "env \<Rightarrow> task \<Rightarrow> segment \<Rightarrow> int \<Rightarrow> frame_quality \<Rightarrow> key cache
     \<Rightarrow> (error + blob option data_with_meta) \<times> key cache" where
  "SegmentFrameProvider_get_chunk ev db_task db_segment chunk_number quality c =
     (case SegmentFrameProvider_validate_chunk_number (task_data db_task) db_segment
             chunk_number of
        Inl e \<Rightarrow> (Inl e, c)
      | Inr chunk_number' \<Rightarrow>
          (case read_chunk_of ev db_task db_segment quality chunk_number' c of
             (Inl e, c') \<Rightarrow> (Inl e, c')
           | (Inr (chunk_data, mime_type), c') \<Rightarrow>
               (Inr (DataWithMeta chunk_data mime_type None), c')))"

text \<open>\<^verbatim>\<open>IFrameProvider._convert_frame\<close>.\<close>

definition convert_frame :: "frame \<Rightarrow> reader_class \<Rightarrow> frame_output_type \<Rightarrow> frame" where
  "convert_frame fr rc out_type =
     (case out_type of
        BUFFER \<Rightarrow> (if rc = VideoReader then PngBytes fr else fr)
      | PIL \<Rightarrow> (if rc = VideoReader then ToImage fr else ImageOpen fr)
      | NUMPY_ARRAY \<Rightarrow> (if rc = VideoReader then ToNdarray fr else BgrArray (ImageOpen fr)))"

text \<open>
  \<^verbatim>\<open>SegmentFrameProvider.get_frame\<close>, with the loaders of the provider (one per
  quality) and the cache threaded through. Subscripting the \<^verbatim>\<open>None\<close> a loader returns
  after a failed load of the same chunk is a \<^verbatim>\<open>TypeError\<close>; a position the opened
  chunk does not hold fails.
\<close>

definition SegmentFrameProvider_get_frame ::
  "env \<Rightarrow> task \<Rightarrow> segment \<Rightarrow> (frame_quality \<Rightarrow> chunk_loader) \<Rightarrow> int \<Rightarrow> frame_quality
     \<Rightarrow> frame_output_type \<Rightarrow> key cache
     \<Rightarrow> (error + frame data_with_meta) \<times> (frame_quality \<Rightarrow> chunk_loader) \<times> key cache" where
  "SegmentFrameProvider_get_frame ev db_task db_segment loaders frame_number quality out_type c =
     (case SegmentFrameProvider_validate_frame_number (task_data db_task) db_segment
             frame_number of
        Inl e \<Rightarrow> (Inl e, loaders, c)
      | Inr (_, chunk_number, frame_offset) \<Rightarrow>
          (case load ev (read_chunk_of ev db_task db_segment quality) chunk_number
                  (loaders quality) c of
             (Inl e, loader, c') \<Rightarrow> (Inl e, loaders(quality := loader), c')
           | (Inr None, loader, c') \<Rightarrow> (Inl TypeError, loaders(quality := loader), c')
           | (Inr (Some r), loader, c') \<Rightarrow>
               (if frame_offset < 0 \<or> int (length (reader_items r)) \<le> frame_offset
                then (Inl IndexError, loaders(quality := loader), c')
                else
                  (let (fr, frame_name) = reader_items r ! nat frame_offset;
                       fr' = convert_frame fr (reader_class loader) out_type
                   in if reader_class loader = VideoReader
                      then (Inr (DataWithMeta fr' (Some ''image/png'') None),
                            loaders(quality := loader), c')
                      else (Inr (DataWithMeta fr' (guess_type ev frame_name) None),
                            loaders(quality := loader), c')))))"

section \<open>Task frame provider\<close>

definition TaskFrameProvider_validate_chunk_number :: "data \<Rightarrow> int \<Rightarrow> error + int" where
  "TaskFrameProvider_validate_chunk_number db_data chunk_number =
     (let start_chunk = 0
      in case ceil_truediv (data_size db_data) (chunk_size db_data) of
           Inl e \<Rightarrow> Inl e
         | Inr stop_chunk \<Rightarrow>
             if \<not> (start_chunk \<le> chunk_number \<and> chunk_number \<le> stop_chunk)
             then Inl ValidationError else Inr chunk_number)"

text \<open>
  The frame ids of task chunk \<open>chunk_number\<close>, as \<^verbatim>\<open>get_chunk\<close> computes the range
  it turns into \<^verbatim>\<open>task_chunk_frame_set\<close>.
\<close>

definition task_chunk_frame_range :: "data \<Rightarrow> int \<Rightarrow> int list" where
  "task_chunk_frame_range db_data chunk_number =
     (let step = frame_step db_data;
          task_chunk_start_frame = chunk_number * chunk_size db_data;
          task_chunk_stop_frame = (chunk_number + 1) * chunk_size db_data - 1
      in py_range (start_frame db_data + task_chunk_start_frame * step)
           (min (start_frame db_data + task_chunk_stop_frame * step) (stop_frame db_data) + step)
           step)"

definition matching_segments :: "task \<Rightarrow> int list \<Rightarrow> segment list" where
  "matching_segments db_task task_chunk_frame_set =
     sort_key segment_start_frame
       (filter (\<lambda>s. segment_type s = RANGE
                  \<and> set task_chunk_frame_set \<inter> set (frame_set s) \<noteq> {})
          (segment_set db_task))"

text \<open>
  The two loops that build \<^verbatim>\<open>task_chunk_frames\<close> for a joined chunk. The inner one
  visits the ids of \<^verbatim>\<open>task_chunk_frame_set\<close> in the set's iteration order and reads
  those the segment holds through the segment's provider; the outer one takes the
  matching segments in order, each with a provider of its own.
\<close>

fun segment_chunk_frames ::
  "env \<Rightarrow> task \<Rightarrow> segment \<Rightarrow> frame_quality \<Rightarrow> int list \<Rightarrow> (frame_quality \<Rightarrow> chunk_loader)
     \<Rightarrow> key cache \<Rightarrow> (error + frame list) \<times> key cache" where
  "segment_chunk_frames ev db_task db_segment quality [] loaders c = (Inr [], c)"
| "segment_chunk_frames ev db_task db_segment quality (task_chunk_frame_id # rest) loaders c =
     (if task_chunk_frame_id \<notin> set (frame_set db_segment)
      then segment_chunk_frames ev db_task db_segment quality rest loaders c
      else
        (case SegmentFrameProvider_get_frame ev db_task db_segment loaders
                task_chunk_frame_id quality BUFFER c of
           (Inl e, loaders', c') \<Rightarrow> (Inl e, c')
         | (Inr res, loaders', c') \<Rightarrow>
             (case segment_chunk_frames ev db_task db_segment quality rest loaders' c' of
                (Inl e, c'') \<Rightarrow> (Inl e, c'')
              | (Inr frs, c'') \<Rightarrow> (Inr (meta_data res # frs), c''))))"

fun joined_chunk_frames ::
  "env \<Rightarrow> task \<Rightarrow> frame_quality \<Rightarrow> int list \<Rightarrow> segment list \<Rightarrow> key cache
     \<Rightarrow> (error + frame list) \<times> key cache" where
  "joined_chunk_frames ev db_task quality visit [] c = (Inr [], c)"
| "joined_chunk_frames ev db_task quality visit (db_segment # rest) c =
     (case segment_chunk_frames ev db_task db_segment quality visit
             (SegmentFrameProvider_init (task_data db_task)) c of
        (Inl e, c') \<Rightarrow> (Inl e, c')
      | (Inr frs, c') \<Rightarrow>
          (case joined_chunk_frames ev db_task quality visit rest c' of
             (Inl e, c'') \<Rightarrow> (Inl e, c'')
           | (Inr frs', c'') \<Rightarrow> (Inr (frs @ frs'), c'')))"

text \<open>\<^verbatim>\<open>TaskFrameProvider.get_chunk\<close>. \<^verbatim>\<open>range\<close> raises \<^verbatim>\<open>ValueError\<close> on a zero step.\<close>

definition TaskFrameProvider_get_chunk ::
  "env \<Rightarrow> task \<Rightarrow> int \<Rightarrow> frame_quality \<Rightarrow> key cache
     \<Rightarrow> (error + blob option data_with_meta) \<times> key cache" where
  "TaskFrameProvider_get_chunk ev db_task chunk_number0 quality c =
     (case TaskFrameProvider_validate_chunk_number (task_data db_task) chunk_number0 of
        Inl e \<Rightarrow> (Inl e, c)
      | Inr chunk_number \<Rightarrow>
          (let db_data = task_data db_task;
               task_chunk_start_frame = chunk_number * chunk_size db_data
           in if frame_step db_data = 0 then (Inl ValueError, c)
              else
                (let task_chunk_frame_set = task_chunk_frame_range db_data chunk_number;
                     matching = matching_segments db_task task_chunk_frame_set
                 in if matching = [] then (Inl AssertionError, c)
                    else if length matching = 1 then
                      (case SegmentFrameProvider_get_chunk_number db_data
                              task_chunk_start_frame of
                         Inl e \<Rightarrow> (Inl e, c)
                       | Inr segment_chunk \<Rightarrow>
                           SegmentFrameProvider_get_chunk ev db_task (hd matching)
                             segment_chunk quality c)
                    else
                      (case joined_chunk_frames ev db_task quality
                              (iter_set ev task_chunk_frame_set) matching c of
                         (Inl e, c') \<Rightarrow> (Inl e, c')
                       | (Inr task_chunk_frames, c') \<Rightarrow>
                           (let wclass = writer_classes db_data quality;
                                img_quality =
                                  (if wclass \<in> {Mpeg4ChunkWriter, ZipChunkWriter} then 100
                                   else image_quality db_data);
                                mime_type =
                                  (if wclass \<in> {Mpeg4ChunkWriter, Mpeg4CompressedChunkWriter}
                                   then ''video/mp4'' else ''application/zip'');
                                dim = (if dimension db_task = DIM_3D then Some DIM_3D else None)
                            in case save_as_chunk ev
                                      \<lparr>writer_class = wclass, writer_quality = img_quality,
                                       writer_dimension = dim, compress_frames = Some False,
                                       zip_compress_level = Some 1\<rparr> task_chunk_frames of
                                 Inl e \<Rightarrow> (Inl e, c')
                               | Inr buffer \<Rightarrow>
                                   (Inr (DataWithMeta (Some (BytesIO buffer)) (Some mime_type)
                                           None), c'))))))"

section \<open>Joined task chunks: what the loops compute\<close>

text \<open>
  The data \<open>read_chunk\<close> yields for chunk \<open>chunk_idx\<close> of a segment when nothing stale
  is served: the chunk the producer builds (storage method \<^verbatim>\<open>CACHE\<close>) or the content
  of the precomputed file.
\<close>

definition chunk_source ::
  "env \<Rightarrow> task \<Rightarrow> segment \<Rightarrow> frame_quality \<Rightarrow> int \<Rightarrow> error + blob option" where
  "chunk_source ev db_task db_segment quality chunk_idx =
     (if storage_method (task_data db_task) = CACHE then
        (case prepare_segment_chunk ev db_task db_segment chunk_idx quality of
           Inl e \<Rightarrow> Inl e
         | Inr (buff, mime_type) \<Rightarrow> Inr (Some (BytesIO buff)))
      else
        (case files ev (segment_chunk_path ev quality chunk_idx (segment_id db_segment)) of
           None \<Rightarrow> Inl FileNotFoundError
         | Some content \<Rightarrow> Inr (Some (BytesIO content))))"

text \<open>
  The frame that \<open>get_frame\<close> with output type \<open>BUFFER\<close> stands for: the entry at the
  frame's offset in the opened chunk that holds it, converted.
\<close>

definition segment_frame ::
  "env \<Rightarrow> task \<Rightarrow> segment \<Rightarrow> frame_quality \<Rightarrow> int \<Rightarrow> error + frame" where
  "segment_frame ev db_task db_segment quality frame_number =
     (let rc = reader_class (SegmentFrameProvider_init (task_data db_task) quality)
      in case SegmentFrameProvider_validate_frame_number (task_data db_task) db_segment
                frame_number of
           Inl e \<Rightarrow> Inl e
         | Inr (_, chunk_number, frame_offset) \<Rightarrow>
             (case chunk_source ev db_task db_segment quality chunk_number of
                Inl e \<Rightarrow> Inl e
              | Inr chunk_data \<Rightarrow>
                  (case open_chunk ev rc chunk_data of
                     Inl e \<Rightarrow> Inl e
                   | Inr items \<Rightarrow>
                       if frame_offset < 0 \<or> int (length items) \<le> frame_offset
                       then Inl IndexError
                       else Inr (convert_frame (fst (items ! nat frame_offset)) rc BUFFER))))"

text \<open>The results of a sequence of reads, up to the first failure.\<close>

fun collect :: "(error + 'a) list \<Rightarrow> error + 'a list" where
  "collect [] = Inr []"
| "collect (Inl e # rs) = Inl e"
| "collect (Inr x # rs) = (case collect rs of Inl e \<Rightarrow> Inl e | Inr xs \<Rightarrow> Inr (x # xs))"

text \<open>
  The reads of a joined chunk, in order: segment by segment, and for each segment the
  visited ids that the segment holds.
\<close>

definition joined_requests :: "segment list \<Rightarrow> int list \<Rightarrow> (segment \<times> int) list" where
  "joined_requests segs visit =
     concat (map (\<lambda>s. map (Pair s) (filter (\<lambda>f. f \<in> set (frame_set s)) visit)) segs)"

text \<open>
  The cache serves no stale segment chunk: an item under a segment-chunk key of the
  task whose checksum verifies is the buffer the producer builds for that chunk.
\<close>

definition cache_coherent :: "env \<Rightarrow> task \<Rightarrow> key cache \<Rightarrow> bool" where
  "cache_coherent ev db_task c \<longleftrightarrow>
     (\<forall>s \<in> set (segment_set db_task). \<forall>k q item.
        cache_get c (SegmentChunkKey (segment_id s) k q) = Some item
        \<longrightarrow> item_checksum item = Some (get_checksum (getbuffer (item_data item)))
        \<longrightarrow> (\<exists>buff mime_type.
               prepare_segment_chunk ev db_task s k q = Inr (buff, mime_type)
               \<and> item_data item = BytesIO buff))"

text \<open>A loader of a segment provider holds nothing, or the opened chunk of its chunk id.\<close>

definition loader_ok ::
  "env \<Rightarrow> task \<Rightarrow> segment \<Rightarrow> frame_quality \<Rightarrow> chunk_loader \<Rightarrow> bool" where
  "loader_ok ev db_task db_segment quality l \<longleftrightarrow>
     reader_class l = reader_class (SegmentFrameProvider_init (task_data db_task) quality)
     \<and> (case chunk_id l of
          None \<Rightarrow> chunk_reader l = None
        | Some k \<Rightarrow>
            (\<exists>rd chunk_data. chunk_reader l = Some rd
               \<and> chunk_source ev db_task db_segment quality k = Inr chunk_data
               \<and> open_chunk ev (reader_class l) chunk_data = Inr (reader_items rd)))"

text \<open>Two caches differ at most under the segment-chunk keys of the given segments.\<close>

definition differ_on_segments :: "segment set \<Rightarrow> frame_quality \<Rightarrow> key cache \<Rightarrow> key cache \<Rightarrow> bool" where
  "differ_on_segments segs quality c c' \<longleftrightarrow>
     (\<forall>key. c' key \<noteq> c key
        \<longrightarrow> (\<exists>s \<in> segs. \<exists>k. key = SegmentChunkKey (segment_id s) k quality))"

section \<open>Previews\<close>

text \<open>\<^verbatim>\<open>prepare_preview_image\<close>.\<close>

definition prepare_preview_image :: "env \<Rightarrow> frame \<Rightarrow> bytes \<times> string" where
  "prepare_preview_image ev img =
     (let PREVIEW_SIZE = (256, 256);
          PREVIEW_MIME = ''image/jpeg'';
          img1 = ExifTranspose img;
          img2 = Thumbnail PREVIEW_SIZE img1;
          output_buf = save_image ev (ConvertRGB img2) ''JPEG''
      in (output_buf, PREVIEW_MIME))"

text \<open>
  \<^verbatim>\<open>TaskFrameProvider.validate_frame_number\<close>, and the attributes an instance of
  \<^verbatim>\<open>TaskFrameProvider\<close> has: those of the class, those of its base
  \<^verbatim>\<open>IFrameProvider\<close>, and the instance attribute set by \<^verbatim>\<open>__init__\<close>. Neither class
  defines \<^verbatim>\<open>__getattr__\<close>.
\<close>

definition TaskFrameProvider_validate_frame_number :: "data \<Rightarrow> int \<Rightarrow> error + int" where
  "TaskFrameProvider_validate_frame_number db_data frame_number =
     (let start = start_frame db_data; stop = stop_frame db_data
      in if frame_step db_data = 0 then Inl ValueError
         else if frame_number \<notin> set (py_range start (stop + 1) (frame_step db_data))
         then Inl ValidationError
         else Inr frame_number)"

definition TaskFrameProvider_attributes :: "string list" where
  "TaskFrameProvider_attributes =
     [''__init__'', ''_db_task'', ''validate_frame_number'', ''validate_chunk_number'',
      ''get_chunk_number'', ''get_preview'', ''get_chunk'', ''get_frame'',
      ''get_frame_context_images'', ''iterate_frames'', ''_get_segment'',
      ''_get_segment_frame_provider'',
      ''VIDEO_FRAME_EXT'', ''VIDEO_FRAME_MIME'', ''unload'', ''_av_frame_to_png_bytes'',
      ''_convert_frame'']"

text \<open>
  A call \<^verbatim>\<open>task_frame_provider.name(n)\<close> with one integer argument, for the methods
  that map a number to a number: a name the instance does not have is an
  \<^verbatim>\<open>AttributeError\<close>; the other attributes do not take (only) a number.
\<close>

definition TaskFrameProvider_call :: "data \<Rightarrow> string \<Rightarrow> int \<Rightarrow> error + int" where
  "TaskFrameProvider_call db_data name n =
     (if name \<notin> set TaskFrameProvider_attributes then Inl AttributeError
      else if name = ''validate_frame_number''
        then TaskFrameProvider_validate_frame_number db_data n
      else if name = ''validate_chunk_number''
        then TaskFrameProvider_validate_chunk_number db_data n
      else if name = ''get_chunk_number'' then TaskFrameProvider_get_chunk_number db_data n
      else Inl TypeError)"

text \<open>
  \<^verbatim>\<open>MediaCache._prepare_segment_preview\<close>. In the 2D branch the attribute
  \<^verbatim>\<open>task_frame_provider.get_rel_frame_number\<close> is looked up before its argument
  \<^verbatim>\<open>min(db_segment.frame_set)\<close> is evaluated (\<^verbatim>\<open>min\<close> of an empty sequence is a
  \<^verbatim>\<open>ValueError\<close>); the frame is then read through a new segment provider.
\<close>

definition prepare_segment_preview ::
  "env \<Rightarrow> task \<Rightarrow> segment \<Rightarrow> key cache \<Rightarrow> (error + (bytes \<times> string)) \<times> key cache" where
  "prepare_segment_preview ev db_task db_segment c =
     (if dimension db_task = DIM_3D
      then (Inr (prepare_preview_image ev (ImageOpen (Encoded (preview_3d_asset ev)))), c)
      else if ''get_rel_frame_number'' \<notin> set TaskFrameProvider_attributes
      then (Inl AttributeError, c)
      else if frame_set db_segment = [] then (Inl ValueError, c)
      else
        (case TaskFrameProvider_call (task_data db_task) ''get_rel_frame_number''
                (Min (set (frame_set db_segment))) of
           Inl e \<Rightarrow> (Inl e, c)
         | Inr frame_number \<Rightarrow>
             (case SegmentFrameProvider_get_frame ev db_task db_segment
                     (SegmentFrameProvider_init (task_data db_task)) frame_number
                     COMPRESSED PIL c of
                (Inl e, loaders, c') \<Rightarrow> (Inl e, c')
              | (Inr res, loaders, c') \<Rightarrow>
                  (Inr (prepare_preview_image ev (meta_data res)), c'))))"

definition get_or_set_segment_preview ::
  "env \<Rightarrow> task \<Rightarrow> segment \<Rightarrow> key cache \<Rightarrow> (error + data_with_mime) \<times> key cache" where
  "get_or_set_segment_preview ev db_task db_segment c =
     get_or_set_cache_item c (SegmentPreviewKey (segment_id db_segment))
       (\<lambda>c0. case prepare_segment_preview ev db_task db_segment c0 of
               (Inl e, c1) \<Rightarrow> (Inl e, c1)
             | (Inr (buff, mime_type), c1) \<Rightarrow>
                 (Inr (Returns (Some (BytesIO buff)) (Some mime_type)), c1))"

section \<open>Cloud storage preview\<close>

text \<open>\<^verbatim>\<open>os.path.dirname\<close> and \<^verbatim>\<open>os.path.join\<close> (of two components) on POSIX paths.\<close>

definition path_dirname :: "string \<Rightarrow> string" where
  "path_dirname p =
     (let head = rev (dropWhile (\<lambda>ch. ch \<noteq> CHR ''/'') (rev p))
      in if head \<noteq> [] \<and> (\<exists>ch \<in> set head. ch \<noteq> CHR ''/'')
         then rev (dropWhile (\<lambda>ch. ch = CHR ''/'') (rev head))
         else head)"

definition path_join :: "string \<Rightarrow> string \<Rightarrow> string" where
  "path_join a b =
     (if b \<noteq> [] \<and> hd b = CHR ''/'' then b
      else if a = [] \<or> last a = CHR ''/'' then a @ b
      else a @ ''/'' @ b)"

text \<open>
  A manifest is the list of its entries; the cloud storage binding gives the file names
  of its manifests in the order of \<^verbatim>\<open>db_storage.manifests.all()\<close>. The blob store
  (\<^verbatim>\<open>storage\<close>) answers \<^verbatim>\<open>get_file_last_modified\<close>, hands out the manifest that
  \<^verbatim>\<open>download_file\<close> copies to the local path, and \<^verbatim>\<open>download_fileobj\<close>; each may
  fail. The local copies are the state: a path holds its modification time and the
  manifest parsed from it. \<open>now\<close> is the time a download stamps on the copy.
\<close>

record manifest_entry =
  entry_name :: string
  entry_extension :: string

type_synonym manifest = "manifest_entry list"

record cloud_storage =
  storage_id :: int
  manifests :: "string list"
  storage_dirname :: string

record blob_store =
  get_file_last_modified :: "string \<Rightarrow> error + int"
  download_file :: "string \<Rightarrow> error + manifest"
  download_fileobj :: "string \<Rightarrow> error + bytes"

type_synonym local_files = "string \<rightharpoonup> (int \<times> manifest)"

text \<open>
  The refresh of one local manifest copy: download when the copy is missing or older
  than the remote file (the remote time is asked for only when the copy exists), then
  read the copy.
\<close>

definition refresh_manifest ::
  "blob_store \<Rightarrow> int \<Rightarrow> string \<Rightarrow> string \<Rightarrow> local_files \<Rightarrow> (error + manifest) \<times> local_files" where
  "refresh_manifest storage now filename full_manifest_path fs =
     (let download = (\<lambda>_::unit.
            case download_file storage filename of
              Inl e \<Rightarrow> (Inl e, fs)
            | Inr content \<Rightarrow> (Inr content, fs(full_manifest_path \<mapsto> (now, content))))
      in case fs full_manifest_path of
           None \<Rightarrow> download ()
         | Some (mtime, content) \<Rightarrow>
             (case get_file_last_modified storage filename of
                Inl e \<Rightarrow> (Inl e, fs)
              | Inr remote_time \<Rightarrow>
                  if mtime < remote_time then download () else (Inr content, fs)))"

text \<open>The loop over the manifests: the path of the preview, or \<^verbatim>\<open>None\<close>.\<close>

fun find_preview_path ::
  "blob_store \<Rightarrow> int \<Rightarrow> string \<Rightarrow> string list \<Rightarrow> local_files
     \<Rightarrow> (error + string option) \<times> local_files" where
  "find_preview_path storage now dirname [] fs = (Inr None, fs)"
| "find_preview_path storage now dirname (filename # rest) fs =
     (let manifest_prefix = path_dirname filename;
          full_manifest_path = path_join dirname filename
      in case refresh_manifest storage now filename full_manifest_path fs of
           (Inl e, fs') \<Rightarrow> (Inl e, fs')
         | (Inr manifest, fs') \<Rightarrow>
             (case manifest of
                [] \<Rightarrow> find_preview_path storage now dirname rest fs'
              | preview_info # _ \<Rightarrow>
                  (let preview_filename = entry_name preview_info @ entry_extension preview_info
                   in (Inr (Some (path_join manifest_prefix preview_filename)), fs'))))"

text \<open>\<^verbatim>\<open>MediaCache._prepare_cloud_preview\<close>.\<close>

definition prepare_cloud_preview ::
  "env \<Rightarrow> blob_store \<Rightarrow> int \<Rightarrow> cloud_storage \<Rightarrow> local_files
     \<Rightarrow> (error + (bytes \<times> string option)) \<times> local_files" where
  "prepare_cloud_preview ev storage now db_storage fs =
     (if length (manifests db_storage) = 0 then (Inl ValidationError, fs)
      else
        (case find_preview_path storage now (storage_dirname db_storage)
                (manifests db_storage) fs of
           (Inl e, fs') \<Rightarrow> (Inl e, fs')
         | (Inr preview_path, fs') \<Rightarrow>
             (case preview_path of
                None \<Rightarrow> (Inl NotFound, fs')
              | Some path \<Rightarrow>
                  if path = [] then (Inl NotFound, fs')
                  else
                    (case download_fileobj storage path of
                       Inl e \<Rightarrow> (Inl e, fs')
                     | Inr buff \<Rightarrow> (Inr (buff, guess_type ev path), fs')))))"

text \<open>
  The local manifest copies agree with the blob store: a copy that is not older than
  the remote file (modification time \<open>lm\<close>) holds the remote content (\<open>rm\<close>).
\<close>

definition copies_agree ::
  "string \<Rightarrow> (string \<Rightarrow> int) \<Rightarrow> (string \<Rightarrow> manifest) \<Rightarrow> string set \<Rightarrow> local_files \<Rightarrow> bool" where
  "copies_agree dir lm rm names fs \<longleftrightarrow>
     (\<forall>g \<in> names. \<forall>mt cont.
        fs (path_join dir g) = Some (mt, cont) \<longrightarrow> \<not> mt < lm g \<longrightarrow> cont = rm g)"

text \<open>
  \<^verbatim>\<open>MediaCache.get_or_set_cloud_preview\<close>. The producer runs, and the local copies
  change, unless the cache holds an item under the key whose checksum verifies.
\<close>

definition verified_hit :: "'k cache \<Rightarrow> 'k \<Rightarrow> bool" where
  "verified_hit c key =
     (case cache_get c key of
        None \<Rightarrow> False
      | Some item \<Rightarrow> item_checksum item = Some (get_checksum (getbuffer (item_data item))))"

definition get_or_set_cloud_preview ::
  "env \<Rightarrow> blob_store \<Rightarrow> int \<Rightarrow> cloud_storage \<Rightarrow> key cache \<Rightarrow> local_files
     \<Rightarrow> (error + data_with_mime) \<times> key cache \<times> local_files" where
  "get_or_set_cloud_preview ev storage now db_storage c fs =
     (let key = CloudStoragePreviewKey (storage_id db_storage);
          (produced, fs') = prepare_cloud_preview ev storage now db_storage fs;
          (res, c') = get_or_set_cache_item c key
             (\<lambda>c0. case produced of
                     Inl e \<Rightarrow> (Inl e, c0)
                   | Inr (buff, mime_type) \<Rightarrow> (Inr (Returns (Some (BytesIO buff)) mime_type), c0))
      in (res, c', if verified_hit c key then fs else fs'))"

section \<open>An environment for the examples\<close>

text \<open>
  A small stand-in for the collaborators, used where a statement is evaluated on a
  concrete input: a chunk holds one byte per frame (the frame id of a raw frame), a
  reader gives the frames back under one name, there are no chunk files, and a set is
  iterated as CPython iterates a set of at most four small non-negative integers that
  are distinct modulo 8 (a table of eight slots, the integer \<open>x\<close> in slot \<open>x mod 8\<close>).
\<close>

fun frame_byte :: "frame \<Rightarrow> byte" where
  "frame_byte (RawFrame f) = word_of_int f"
| "frame_byte fr = 0"

definition example_env :: env where
  "example_env =
     \<lparr>save_as_chunk = (\<lambda>w frs. Inr (map frame_byte frs)),
      open_chunk = (\<lambda>rc d. case d of
                       None \<Rightarrow> Inl TypeError
                     | Some b \<Rightarrow> Inr (map (\<lambda>x. (RawFrame (uint x), ''frame.jpg'')) (getbuffer b))),
      image_size = (\<lambda>fr. (1, 1)),
      dummy_frame = [0],
      guess_type = (\<lambda>name. Some ''image/jpeg''),
      segment_chunk_path = (\<lambda>quality chunk_idx seg. ''chunk.zip''),
      files = Map.empty,
      iter_set = sort_key (\<lambda>x. x mod 8),
      save_image = (\<lambda>fr format. [frame_byte fr]),
      preview_3d_asset = [3]\<rparr>"

definition example_data :: data where
  "example_data =
     \<lparr>data_id = 1, start_frame = 0, stop_frame = 13, frame_step = 1, chunk_size = 3,
      data_size = 14, image_quality = 70, storage_method = CACHE,
      compressed_chunk_type = IMAGESET, original_chunk_type = IMAGESET, video = None\<rparr>"

definition example_segment_1 :: segment where
  "example_segment_1 =
     \<lparr>segment_id = 1, segment_type = RANGE, segment_start_frame = 0, frame_count = 7,
      frame_set = [0, 1, 2, 3, 4, 5, 6]\<rparr>"

definition example_segment_2 :: segment where
  "example_segment_2 =
     \<lparr>segment_id = 2, segment_type = RANGE, segment_start_frame = 7, frame_count = 7,
      frame_set = [7, 8, 9, 10, 11, 12, 13]\<rparr>"

definition example_task :: task where
  "example_task =
     \<lparr>task_id = 1, task_data = example_data, dimension = DIM_2D,
      segment_set = [example_segment_1, example_segment_2]\<rparr>"

text \<open>
  A task whose frames are taken at every second position, with a
  \<open>SPECIFIC_FRAMES\<close> segment over some of them.
\<close>

definition masked_example_data :: data where
  "masked_example_data =
     \<lparr>data_id = 2, start_frame = 0, stop_frame = 20, frame_step = 2, chunk_size = 3,
      data_size = 11, image_quality = 70, storage_method = CACHE,
      compressed_chunk_type = IMAGESET, original_chunk_type = IMAGESET, video = None\<rparr>"

definition masked_example_segment :: segment where
  "masked_example_segment =
     \<lparr>segment_id = 3, segment_type = SPECIFIC_FRAMES, segment_start_frame = 0,
      frame_count = 6, frame_set = [0, 2, 4, 6, 8, 10]\<rparr>"

definition masked_example_task :: task where
  "masked_example_task =
     \<lparr>task_id = 2, task_data = masked_example_data, dimension = DIM_2D,
      segment_set = [masked_example_segment]\<rparr>"

text \<open>A cloud storage binding without manifests, and one whose first manifest is empty.\<close>

definition example_store :: blob_store where
  "example_store =
     \<lparr>get_file_last_modified = (\<lambda>name. Inr 5),
      download_file = (\<lambda>name. if name = ''a/manifest.jsonl'' then Inr []
                        else Inr [\<lparr>entry_name = ''img_1'', entry_extension = ''.png''\<rparr>,
                                  \<lparr>entry_name = ''img_2'', entry_extension = ''.png''\<rparr>]),
      download_fileobj = (\<lambda>path. if path = ''b/img_1.png'' then Inr [0x61] else Inl NotFound)\<rparr>"

definition empty_cloud_storage :: cloud_storage where
  "empty_cloud_storage = \<lparr>storage_id = 1, manifests = [], storage_dirname = ''/data/1''\<rparr>"

definition example_cloud_storage :: cloud_storage where
  "example_cloud_storage =
     \<lparr>storage_id = 2, manifests = [''a/manifest.jsonl'', ''b/manifest.jsonl''],
      storage_dirname = ''/data/2''\<rparr>"

section \<open>Properties\<close>

subsection \<open>Lists\<close>

lemma index_of_less: "x \<in> set xs \<Longrightarrow> index_of x xs < length xs"
  by (induction xs) auto

lemma index_of_nth: "x \<in> set xs \<Longrightarrow> xs ! index_of x xs = x"
  by (induction xs) auto

lemma index_of_first: "j < index_of x xs \<Longrightarrow> xs ! j \<noteq> x"
proof (induction xs arbitrary: j)
  case Nil
  then show ?case by simp
next
  case (Cons y ys)
  then show ?case by (cases j) (auto split: if_splits)
qed

subsection \<open>Addressing inside a segment\<close>

text \<open>
  C4. For a positive chunk size and a frame number \<open>f\<close> of the segment's frame set,
  \<open>validate_frame_number\<close> returns \<open>(f, k, o)\<close> where \<open>k * chunk_size + o\<close> is the
  position of \<open>f\<close> in the frame sequence (the first position holding \<open>f\<close>) and
  \<open>0 \<le> o < chunk_size\<close>; for a frame number outside the frame set it fails with the
  validation error.
\<close>

theorem validate_frame_number_addressing:
  assumes "0 < chunk_size db_data"
  shows "(f \<in> set (frame_set db_segment) \<longrightarrow>
           (\<exists>k ofs. SegmentFrameProvider_validate_frame_number db_data db_segment f = Inr (f, k, ofs)
              \<and> k * chunk_size db_data + ofs = int (index_of f (frame_set db_segment))
              \<and> 0 \<le> ofs \<and> ofs < chunk_size db_data
              \<and> index_of f (frame_set db_segment) < length (frame_set db_segment)
              \<and> frame_set db_segment ! index_of f (frame_set db_segment) = f))
       \<and> (f \<notin> set (frame_set db_segment) \<longrightarrow>
           SegmentFrameProvider_validate_frame_number db_data db_segment f = Inl ValidationError)"
  using assms
  by (simp add: SegmentFrameProvider_validate_frame_number_def Let_def
      index_of_less index_of_nth)

theorem validate_frame_number_addressing_witness:
  "SegmentFrameProvider_validate_frame_number
     \<lparr>data_id = 1, start_frame = 0, stop_frame = 9, frame_step = 1, chunk_size = 2,
      data_size = 10, image_quality = 70, storage_method = CACHE,
      compressed_chunk_type = IMAGESET, original_chunk_type = IMAGESET, video = None\<rparr>
     \<lparr>segment_id = 1, segment_type = SPECIFIC_FRAMES, segment_start_frame = 0,
      frame_count = 3, frame_set = [0, 2, 5]\<rparr> 5 = Inr (5, 1, 0)
   \<and> SegmentFrameProvider_validate_frame_number
     \<lparr>data_id = 1, start_frame = 0, stop_frame = 9, frame_step = 1, chunk_size = 2,
      data_size = 10, image_quality = 70, storage_method = CACHE,
      compressed_chunk_type = IMAGESET, original_chunk_type = IMAGESET, video = None\<rparr>
     \<lparr>segment_id = 1, segment_type = SPECIFIC_FRAMES, segment_start_frame = 0,
      frame_count = 3, frame_set = [0, 2, 5]\<rparr> 4 = Inl ValidationError"
  using validate_frame_number_addressing
    [of "\<lparr>data_id = 1, start_frame = 0, stop_frame = 9, frame_step = 1, chunk_size = 2,
      data_size = 10, image_quality = 70, storage_method = CACHE,
      compressed_chunk_type = IMAGESET, original_chunk_type = IMAGESET, video = None\<rparr>"
     5
     "\<lparr>segment_id = 1, segment_type = SPECIFIC_FRAMES, segment_start_frame = 0,
      frame_count = 3, frame_set = [0, 2, 5]\<rparr>"]
    validate_frame_number_addressing
    [of "\<lparr>data_id = 1, start_frame = 0, stop_frame = 9, frame_step = 1, chunk_size = 2,
      data_size = 10, image_quality = 70, storage_method = CACHE,
      compressed_chunk_type = IMAGESET, original_chunk_type = IMAGESET, video = None\<rparr>"
     4
     "\<lparr>segment_id = 1, segment_type = SPECIFIC_FRAMES, segment_start_frame = 0,
      frame_count = 3, frame_set = [0, 2, 5]\<rparr>"]
  by (simp add: SegmentFrameProvider_validate_frame_number_def)

subsection \<open>Chunk number of a frame\<close>

text \<open>
  C5. With a non-zero chunk size, \<open>get_chunk_number\<close> of the task provider and of the
  segment provider both return \<open>f div chunk_size\<close> (Python's floor division), and
  the result is the same whatever the start frame and the frame step of the data are.
\<close>

theorem get_chunk_number_floor_div:
  assumes "chunk_size db_data \<noteq> 0"
  shows "TaskFrameProvider_get_chunk_number db_data f = Inr (f div chunk_size db_data)
       \<and> SegmentFrameProvider_get_chunk_number db_data f = Inr (f div chunk_size db_data)
       \<and> TaskFrameProvider_get_chunk_number (db_data\<lparr>start_frame := a, frame_step := b\<rparr>) f
           = TaskFrameProvider_get_chunk_number db_data f
       \<and> SegmentFrameProvider_get_chunk_number (db_data\<lparr>start_frame := a, frame_step := b\<rparr>) f
           = SegmentFrameProvider_get_chunk_number db_data f"
  using assms
  by (simp add: TaskFrameProvider_get_chunk_number_def SegmentFrameProvider_get_chunk_number_def)

theorem get_chunk_number_floor_div_witness:
  "TaskFrameProvider_get_chunk_number
     \<lparr>data_id = 1, start_frame = 10, stop_frame = 30, frame_step = 2, chunk_size = 4,
      data_size = 11, image_quality = 70, storage_method = CACHE,
      compressed_chunk_type = IMAGESET, original_chunk_type = IMAGESET, video = None\<rparr> 14 = Inr 3
   \<and> SegmentFrameProvider_get_chunk_number
     \<lparr>data_id = 1, start_frame = 10, stop_frame = 30, frame_step = 2, chunk_size = 4,
      data_size = 11, image_quality = 70, storage_method = CACHE,
      compressed_chunk_type = IMAGESET, original_chunk_type = IMAGESET, video = None\<rparr> 14 = Inr 3"
  using get_chunk_number_floor_div
    [of "\<lparr>data_id = 1, start_frame = 10, stop_frame = 30, frame_step = 2, chunk_size = 4,
      data_size = 11, image_quality = 70, storage_method = CACHE,
      compressed_chunk_type = IMAGESET, original_chunk_type = IMAGESET, video = None\<rparr>" 14]
  by simp

subsection \<open>Media cache: get-or-set\<close>

lemma checksum_empty: "get_checksum [] = 0"
  by code_simp

lemma checksum_a: "get_checksum [0x61] = 3904355907"
  by code_simp

lemma checksum_b: "get_checksum [0x62] = 1908338681"
  by code_simp

text \<open>
  C2. On a hit whose stored checksum equals the CRC-32 of the stored bytes, get-or-set
  returns the stored data and MIME and leaves the cache as it was, whatever the
  producer is (it is not run). On a hit whose checksum differs, the producer is run
  (from the cache state of the call); when it yields a buffer, that buffer and its MIME
  are returned and the entry under the key becomes \<open>(buffer, mime, crc32 buffer)\<close>,
  so that the next get-or-set under the key is a verified hit returning the same bytes.
\<close>

theorem get_or_set_verifies_checksum:
  "(c key = Some (Pickled (CacheItem d m s)) \<and> s = Some (get_checksum (getbuffer d))
      \<longrightarrow> get_or_set_cache_item c key cb = (Inr (Some d, m), c))
 \<and> (c key = Some (Pickled (CacheItem d m s)) \<and> s \<noteq> Some (get_checksum (getbuffer d))
      \<and> cb c = (Inr (Returns (Some (BytesIO bs)) mime), c')
      \<longrightarrow> get_or_set_cache_item c key cb
            = (Inr (Some (BytesIO bs), mime),
               c'(key \<mapsto> Pickled (CacheItem (BytesIO bs) mime (Some (get_checksum bs)))))
        \<and> get_or_set_cache_item
              (c'(key \<mapsto> Pickled (CacheItem (BytesIO bs) mime (Some (get_checksum bs))))) key cb2
            = (Inr (Some (BytesIO bs), mime),
               c'(key \<mapsto> Pickled (CacheItem (BytesIO bs) mime (Some (get_checksum bs))))))"
  by (simp add: get_or_set_cache_item_def create_item_def cache_get_def)

theorem get_or_set_verifies_checksum_witness:
  "get_or_set_cache_item
     [SegmentChunkKey 1 0 ORIGINAL \<mapsto>
        Pickled (CacheItem (BytesIO [0x61]) (Some ''application/zip'') (Some 3904355907))]
     (SegmentChunkKey 1 0 ORIGINAL) (\<lambda>c. (Inl ExternalError, c))
   = (Inr (Some (BytesIO [0x61]), Some ''application/zip''),
      [SegmentChunkKey 1 0 ORIGINAL \<mapsto>
        Pickled (CacheItem (BytesIO [0x61]) (Some ''application/zip'') (Some 3904355907))])
 \<and> get_or_set_cache_item
     [SegmentChunkKey 1 0 ORIGINAL \<mapsto>
        Pickled (CacheItem (BytesIO [0x62]) (Some ''application/zip'') (Some 3904355907))]
     (SegmentChunkKey 1 0 ORIGINAL)
     (\<lambda>c. (Inr (Returns (Some (BytesIO [0x61])) (Some ''application/zip'')), c))
   = (Inr (Some (BytesIO [0x61]), Some ''application/zip''),
      [SegmentChunkKey 1 0 ORIGINAL \<mapsto>
        Pickled (CacheItem (BytesIO [0x61]) (Some ''application/zip'') (Some 3904355907))])"
  using
    get_or_set_verifies_checksum
      [of "[SegmentChunkKey 1 0 ORIGINAL \<mapsto>
             Pickled (CacheItem (BytesIO [0x61]) (Some ''application/zip'') (Some 3904355907))]"
          "SegmentChunkKey 1 0 ORIGINAL" "BytesIO [0x61]" "Some ''application/zip''"
          "Some 3904355907" "\<lambda>c. (Inl ExternalError, c)"]
    get_or_set_verifies_checksum
      [of "[SegmentChunkKey 1 0 ORIGINAL \<mapsto>
             Pickled (CacheItem (BytesIO [0x62]) (Some ''application/zip'') (Some 3904355907))]"
          "SegmentChunkKey 1 0 ORIGINAL" "BytesIO [0x62]" "Some ''application/zip''"
          "Some 3904355907"
          "\<lambda>c. (Inr (Returns (Some (BytesIO [0x61])) (Some ''application/zip'')), c)"
          "[0x61]" "Some ''application/zip''"
          "[SegmentChunkKey 1 0 ORIGINAL \<mapsto>
             Pickled (CacheItem (BytesIO [0x62]) (Some ''application/zip'') (Some 3904355907))]"]
    checksum_a checksum_b
  by simp

text \<open>
  C9, as stated, fails for an empty buffer: a producer that returns a \<^verbatim>\<open>BytesIO\<close>
  holding no bytes has its result stored, with checksum \<open>crc32 [] = 0\<close>.
\<close>

theorem empty_buffer_is_stored:
  "snd (get_or_set_cache_item Map.empty (CloudStoragePreviewKey 1)
          (\<lambda>c. (Inr (Returns (Some (BytesIO [])) (Some ''image/jpeg'')), c)))
     (CloudStoragePreviewKey 1)
   = Some (Pickled (CacheItem (BytesIO []) (Some ''image/jpeg'') (Some 0)))"
  by (simp add: get_or_set_cache_item_def create_item_def cache_get_def checksum_empty)

text \<open>
  C9, amended. On a miss (nothing readable under the key), a producer result whose
  data is absent (\<^verbatim>\<open>None\<close>) is returned and nothing is written; a result whose data
  is a buffer object, empty or not, is returned and stored with its CRC-32.
\<close>

theorem get_or_set_stores_buffers_only:
  assumes "cache_get c key = None"
  shows "(cb c = (Inr (Returns None mime), c')
            \<longrightarrow> get_or_set_cache_item c key cb = (Inr (None, mime), c'))
       \<and> (cb c = (Inr (Returns (Some (BytesIO bs)) mime), c')
            \<longrightarrow> get_or_set_cache_item c key cb
                  = (Inr (Some (BytesIO bs), mime),
                     c'(key \<mapsto> Pickled (CacheItem (BytesIO bs) mime (Some (get_checksum bs))))))"
  using assms
  by (simp add: get_or_set_cache_item_def create_item_def)

theorem get_or_set_stores_buffers_only_witness:
  "get_or_set_cache_item Map.empty (ContextImageKey 1 0) (\<lambda>c. (Inr (Returns None None), c))
     = (Inr (None, None), Map.empty)
 \<and> get_or_set_cache_item Map.empty (ContextImageKey 1 0)
       (\<lambda>c. (Inr (Returns (Some (BytesIO [0x61])) (Some ''application/zip'')), c))
     = (Inr (Some (BytesIO [0x61]), Some ''application/zip''),
        [ContextImageKey 1 0 \<mapsto>
           Pickled (CacheItem (BytesIO [0x61]) (Some ''application/zip'') (Some 3904355907))])"
  using
    get_or_set_stores_buffers_only
      [where c = Map.empty and key = "ContextImageKey 1 0"
         and cb = "\<lambda>c. (Inr (Returns None None), c)" and mime = None and c' = Map.empty]
    get_or_set_stores_buffers_only
      [where c = Map.empty and key = "ContextImageKey 1 0"
         and cb = "\<lambda>c. (Inr (Returns (Some (BytesIO [0x61])) (Some ''application/zip'')), c)"
         and bs = "[0x61]" and mime = "Some ''application/zip''" and c' = Map.empty]
    checksum_a
  by (simp add: cache_get_def)

subsection \<open>The example environment\<close>

lemma example_env_fields:
  "save_as_chunk example_env w frs = Inr (map frame_byte frs)"
  "open_chunk example_env rc None = Inl TypeError"
  "open_chunk example_env rc (Some b)
     = Inr (map (\<lambda>x. (RawFrame (uint x), ''frame.jpg'')) (getbuffer b))"
  "image_size example_env fr = (1, 1)"
  "dummy_frame example_env = [0]"
  "guess_type example_env name = Some ''image/jpeg''"
  "files example_env path = None"
  "iter_set example_env xs = sort_key (\<lambda>x. x mod 8) xs"
  by (simp_all add: example_env_def)

subsection \<open>Chunk loader\<close>

lemma open_readers_snoc: "open_readers (es @ [e]) = apply_event (open_readers es) e"
  by (simp add: open_readers_def)

lemma single_resident_snoc:
  "single_resident (es @ [e]) \<longleftrightarrow> single_resident es \<and> length (open_readers (es @ [e])) \<le> 1"
proof -
  have "(\<forall>n \<le> Suc (length es). length (open_readers (take n (es @ [e]))) \<le> 1)
        \<longleftrightarrow> (\<forall>n \<le> length es. length (open_readers (take n (es @ [e]))) \<le> 1)
            \<and> length (open_readers (take (Suc (length es)) (es @ [e]))) \<le> 1"
    by (metis le_Suc_eq)
  then show ?thesis
    by (simp add: single_resident_def)
qed

lemma loader_inv_init: "loader_inv (ChunkLoader_init rc)"
  by (simp add: loader_inv_def ChunkLoader_init_def single_resident_def open_readers_def)

lemma loader_inv_unload: "loader_inv l \<Longrightarrow> loader_inv (unload l)"
  by (auto simp: loader_inv_def unload_def single_resident_snoc open_readers_snoc
      split: option.splits)

lemma unload_fields:
  "chunk_id (unload l) = None" "chunk_reader (unload l) = None"
  "reader_class (unload l) = reader_class l"
  by (auto simp: unload_def split: option.splits)

lemma unload_open_readers: "loader_inv l \<Longrightarrow> open_readers (history (unload l)) = []"
  using loader_inv_unload [of l] by (simp add: loader_inv_def unload_fields)

lemma loader_inv_load:
  assumes "loader_inv l" and "load ev rd cid l w = (res, l', w')"
  shows "loader_inv l'"
proof (cases "chunk_id l = Some cid")
  case True
  with assms show ?thesis by (simp add: load_def)
next
  case False
  let ?l1 = "(unload l)\<lparr>chunk_id := Some cid\<rparr>"
  have inv1: "loader_inv ?l1"
    using loader_inv_unload [OF assms(1)] by (simp add: loader_inv_def)
  have nor: "chunk_reader ?l1 = None"
    by (simp add: unload_fields)
  show ?thesis
    using assms(2) False inv1 nor
    by (auto simp: load_def Let_def loader_inv_def single_resident_snoc open_readers_snoc
        split: prod.splits sum.splits)
qed

lemma loader_inv_run_calls:
  "loader_inv l \<Longrightarrow> loader_inv (fst (run_calls ev rd calls l w))"
proof (induction calls arbitrary: l w)
  case Nil
  then show ?case by simp
next
  case (Cons call calls)
  show ?case
  proof (cases call)
    case (Load cid)
    obtain res l' w' where ld: "load ev rd cid l w = (res, l', w')"
      by (metis prod_cases3)
    from loader_inv_load [OF Cons.prems ld] Cons.IH [of l' w'] show ?thesis
      by (simp add: Load ld)
  next
    case Unload
    from loader_inv_unload [OF Cons.prems] Cons.IH show ?thesis
      by (simp add: Unload)
  qed
qed

lemma load_same_chunk:
  "chunk_id l = Some cid \<Longrightarrow> load ev rd cid l w = (Inr (chunk_reader l), l, w)"
  by (simp add: load_def)

lemma load_sets_chunk_id:
  "load ev rd cid l w = (res, l', w') \<Longrightarrow> chunk_id l' = Some cid"
  by (auto simp: load_def Let_def split: if_splits prod.splits sum.splits)

lemma load_success_reader:
  "load ev rd cid l w = (Inr x, l', w') \<Longrightarrow> x = chunk_reader l'"
  by (auto simp: load_def Let_def split: if_splits prod.splits sum.splits)

lemma load_other_chunk:
  assumes "chunk_id l = Some a" and "chunk_reader l = Some ra" and "a \<noteq> b"
    and "load ev rd b l w = (res, l', w')"
  shows "(\<exists>rb. res = Inr (Some rb) \<and> chunk_reader l' = Some rb
            \<and> history l' = history l @ [Closed (reader_handle ra), Opened (reader_handle rb) b])
       \<or> (\<exists>e. res = Inl e \<and> chunk_reader l' = None
            \<and> history l' = history l @ [Closed (reader_handle ra)])"
  using assms
  by (auto simp: load_def Let_def unload_def split: prod.splits sum.splits)

text \<open>
  C6. Let \<open>l\<close> be the loader after any sequence of \<open>load\<close> and \<open>unload\<close> calls on a
  new loader, whatever \<open>read_chunk\<close> and the reader constructor do. Then no more than
  one reader was ever open at a time. If \<open>l\<close> holds the reader of chunk \<open>a\<close>, a
  \<open>load b\<close> with \<open>b \<noteq> a\<close> first closes that reader and then opens the reader of \<open>b\<close>
  (or, when reading or opening \<open>b\<close> fails, only closes); the history stays
  single-resident. A \<open>load b\<close> that directly follows a \<open>load b\<close> changes nothing (no
  reader is opened, \<open>read_chunk\<close> is not run) and returns the reader the loader holds,
  the one the first call returned. \<open>unload\<close> leaves no reader open and clears the chunk
  id and the reader.
\<close>

theorem chunk_loader_single_resident:
  assumes "run_calls ev rd calls (ChunkLoader_init rc) w0 = (l, w)"
  shows "single_resident (history l)
       \<and> length (open_readers (history l)) \<le> 1
       \<and> (\<forall>a b ra res l' w'.
             chunk_id l = Some a \<and> chunk_reader l = Some ra \<and> a \<noteq> b
               \<and> load ev rd b l w = (res, l', w')
             \<longrightarrow> single_resident (history l')
                 \<and> ((\<exists>rb. res = Inr (Some rb) \<and> chunk_reader l' = Some rb
                        \<and> history l' = history l
                             @ [Closed (reader_handle ra), Opened (reader_handle rb) b])
                    \<or> (\<exists>e. res = Inl e \<and> chunk_reader l' = None
                        \<and> history l' = history l @ [Closed (reader_handle ra)])))
       \<and> (\<forall>b res l' w'.
             load ev rd b l w = (res, l', w')
             \<longrightarrow> load ev rd b l' w' = (Inr (chunk_reader l'), l', w')
                 \<and> (\<forall>x. res = Inr x \<longrightarrow> x = chunk_reader l'))
       \<and> chunk_id (unload l) = None \<and> chunk_reader (unload l) = None
       \<and> open_readers (history (unload l)) = []
       \<and> single_resident (history (unload l))"
proof -
  have inv: "loader_inv l"
    using loader_inv_run_calls [OF loader_inv_init, of ev rd calls rc w0] assms by simp
  have one: "single_resident (history l)" "length (open_readers (history l)) \<le> 1"
    using inv by (auto simp: loader_inv_def split: option.splits)
  have other: "single_resident (history l')
       \<and> ((\<exists>rb. res = Inr (Some rb) \<and> chunk_reader l' = Some rb
              \<and> history l' = history l
                   @ [Closed (reader_handle ra), Opened (reader_handle rb) b])
          \<or> (\<exists>e. res = Inl e \<and> chunk_reader l' = None
              \<and> history l' = history l @ [Closed (reader_handle ra)]))"
    if "chunk_id l = Some a" "chunk_reader l = Some ra" "a \<noteq> b"
      "load ev rd b l w = (res, l', w')" for a b ra res l' w'
    using load_other_chunk [OF that] loader_inv_load [OF inv that(4)]
    by (simp add: loader_inv_def)
  have same: "load ev rd b l' w' = (Inr (chunk_reader l'), l', w')
       \<and> (\<forall>x. res = Inr x \<longrightarrow> x = chunk_reader l')"
    if "load ev rd b l w = (res, l', w')" for b res l' w'
  proof
    show "load ev rd b l' w' = (Inr (chunk_reader l'), l', w')"
      by (rule load_same_chunk [OF load_sets_chunk_id [OF that]])
    show "\<forall>x. res = Inr x \<longrightarrow> x = chunk_reader l'"
      using that by (auto dest: load_success_reader)
  qed
  have un: "open_readers (history (unload l)) = []" "single_resident (history (unload l))"
    using unload_open_readers [OF inv] loader_inv_unload [OF inv]
    by (simp_all add: loader_inv_def)
  show ?thesis
    using one other same un unload_fields(1,2) by blast
qed


theorem chunk_loader_single_resident_witness:
  "(let rd = (\<lambda>cid w. (Inr (Some (BytesIO [word_of_int cid]), None), w));
        r0 = \<lparr>reader_handle = 0, reader_items = [(RawFrame 1, ''frame.jpg'')]\<rparr>;
        r2 = \<lparr>reader_handle = 2, reader_items = [(RawFrame 2, ''frame.jpg'')]\<rparr>;
        l1 = \<lparr>chunk_id = Some 1, chunk_reader = Some r0, reader_class = ZipReader,
              history = [Opened 0 1]\<rparr>;
        l2 = \<lparr>chunk_id = Some 2, chunk_reader = Some r2, reader_class = ZipReader,
              history = [Opened 0 1, Closed 0, Opened 2 2]\<rparr>
    in run_calls example_env rd [Load 1] (ChunkLoader_init ZipReader) () = (l1, ())
       \<and> load example_env rd 2 l1 () = (Inr (Some r2), l2, ())
       \<and> single_resident (history l2)
       \<and> load example_env rd 2 l2 () = (Inr (Some r2), l2, ())
       \<and> open_readers (history (unload l1)) = [])"
proof -
  let ?rd = "\<lambda>cid (w::unit). (Inr (Some (BytesIO [word_of_int cid :: byte]), None :: string option), w)"
  let ?r0 = "\<lparr>reader_handle = 0, reader_items = [(RawFrame 1, ''frame.jpg'')]\<rparr>"
  let ?r2 = "\<lparr>reader_handle = 2, reader_items = [(RawFrame 2, ''frame.jpg'')]\<rparr>"
  let ?l1 = "\<lparr>chunk_id = Some 1, chunk_reader = Some ?r0, reader_class = ZipReader,
              history = [Opened 0 1]\<rparr>"
  let ?l2 = "\<lparr>chunk_id = Some 2, chunk_reader = Some ?r2, reader_class = ZipReader,
              history = [Opened 0 1, Closed 0, Opened 2 2]\<rparr>"
  have run: "run_calls example_env ?rd [Load 1] (ChunkLoader_init ZipReader) () = (?l1, ())"
    by (simp add: load_def ChunkLoader_init_def unload_def example_env_fields Let_def)
  have ld: "load example_env ?rd 2 ?l1 () = (Inr (Some ?r2), ?l2, ())"
    by (simp add: load_def unload_def example_env_fields Let_def)
  note inst = chunk_loader_single_resident [OF run]
  from inst have other:
    "\<forall>a b ra res l' w'.
        chunk_id ?l1 = Some a \<and> chunk_reader ?l1 = Some ra \<and> a \<noteq> b
          \<and> load example_env ?rd b ?l1 () = (res, l', w')
        \<longrightarrow> single_resident (history l')"
    by blast
  from inst have same:
    "\<forall>b res l' w'.
        load example_env ?rd b ?l1 () = (res, l', w')
        \<longrightarrow> load example_env ?rd b l' w' = (Inr (chunk_reader l'), l', w')"
    by blast
  have "single_resident (history ?l2)"
    using other [rule_format, of 1 "?r0" 2 "Inr (Some ?r2)" "?l2" "()"] ld by simp
  moreover have "load example_env ?rd 2 ?l2 () = (Inr (Some ?r2), ?l2, ())"
    using same [rule_format, OF ld] by simp
  moreover from inst have "open_readers (history (unload ?l1)) = []"
    by simp
  ultimately show ?thesis
    using run ld by (simp add: Let_def)
qed

subsection \<open>The float quotient behind the last chunk number\<close>

lemma bit_length_nonneg: "0 \<le> bit_length n"
proof (induction n rule: bit_length.induct)
  case (1 n)
  then show ?case by (subst bit_length.simps) simp
qed

lemma bit_length_pos: "0 < n \<Longrightarrow> 0 < bit_length n"
  using bit_length_nonneg [of "\<bar>n\<bar> div 2"] by (subst bit_length.simps) simp

lemma bit_length_bounds:
  "0 < n \<Longrightarrow> 2 ^ nat (bit_length n - 1) \<le> n \<and> n < 2 ^ nat (bit_length n)"
proof (induction n rule: bit_length.induct)
  case (1 n)
  show ?case
  proof (cases "n div 2 = 0")
    case True
    with 1(2) have n: "n = 1" by presburger
    show ?thesis unfolding n by (subst (1 2) bit_length.simps) (simp add: bit_length.simps)
  next
    case False
    with 1(2) have h: "0 < \<bar>n\<bar> div 2" and nn: "\<bar>n\<bar> = n" by simp_all
    from 1(1) [OF _ h] 1(2) have ih:
      "2 ^ nat (bit_length (n div 2) - 1) \<le> n div 2" "n div 2 < 2 ^ nat (bit_length (n div 2))"
      by (simp_all add: nn)
    have bl: "bit_length n = 1 + bit_length (n div 2)"
      using 1(2) by (subst bit_length.simps) (simp add: nn)
    have pos: "0 < bit_length (n div 2)"
      using h bit_length_pos nn by simp
    have e1: "nat (bit_length n - 1) = Suc (nat (bit_length (n div 2) - 1))"
      using pos bl by simp
    have e2: "nat (bit_length n) = Suc (nat (bit_length (n div 2)))"
      using pos bl by simp
    from ih show ?thesis unfolding e1 e2 by simp presburger
  qed
qed

lemma floor_log2_lower:
  assumes "0 < n" and "0 < d"
  shows "pow2_le (floor_log2 n d) n d"
proof (cases "pow2_le (bit_length n - bit_length d) n d")
  case True
  then show ?thesis by (simp add: floor_log2_def)
next
  case False
  let ?bn = "bit_length n" and ?bd = "bit_length d"
  from bit_length_bounds [OF assms(1)] have n: "2 ^ nat (?bn - 1) \<le> n" by simp
  from bit_length_bounds [OF assms(2)] have d: "d < 2 ^ nat ?bd" by simp
  have pn: "0 < ?bn" and pd: "0 < ?bd" using assms bit_length_pos by simp_all
  have "pow2_le (?bn - ?bd - 1) n d"
  proof (cases "0 \<le> ?bn - ?bd - 1")
    case True
    then have e: "nat (?bn - 1) = nat ?bd + nat (?bn - ?bd - 1)" using pd by simp
    have "d * 2 ^ nat (?bn - ?bd - 1) \<le> 2 ^ nat ?bd * 2 ^ nat (?bn - ?bd - 1)"
      using d by (simp add: mult_right_mono)
    also have "\<dots> = 2 ^ nat (?bn - 1)" unfolding e by (simp add: power_add)
    finally show ?thesis using n True by (simp add: pow2_le_def)
  next
    case False
    then have e: "nat ?bd = nat (?bn - 1) + nat (- (?bn - ?bd - 1))" using pn by simp
    have "d \<le> 2 ^ nat ?bd" using d by simp
    also have "\<dots> = 2 ^ nat (?bn - 1) * 2 ^ nat (- (?bn - ?bd - 1))"
      unfolding e by (simp add: power_add)
    also have "\<dots> \<le> n * 2 ^ nat (- (?bn - ?bd - 1))"
      using n by (simp add: mult_right_mono)
    finally show ?thesis using False by (simp add: pow2_le_def)
  qed
  with False show ?thesis by (simp add: floor_log2_def)
qed

lemma round_half_even_exact: "0 < d \<Longrightarrow> round_half_even (q * d) d = q"
  by (simp add: round_half_even_def)

lemma round_half_even_range:
  assumes "0 < d"
  shows "n div d \<le> round_half_even n d \<and> round_half_even n d \<le> n div d + 1"
  by (simp add: round_half_even_def Let_def)

lemma round_half_even_up:
  assumes "0 < d" and "d < 2 * (n mod d)"
  shows "round_half_even n d = n div d + 1"
  using assms by (simp add: round_half_even_def Let_def)

text \<open>
  Rounding the quotient to a multiple of \<open>2 ^ - k\<close> keeps its ceiling when
  \<open>d < 2 ^ (k + 1)\<close>: a remainder is then at least half a unit.
\<close>

lemma ceil_round_scaled:
  assumes d: "0 < d" and a: "0 \<le> a" and k: "d < 2 * 2 ^ k"
  shows "- ((- round_half_even (a * 2 ^ k) d) div 2 ^ k) = ceil_div a d"
proof -
  let ?K = "(2::int) ^ k"
  let ?q = "a div d" and ?r = "a mod d"
  let ?m = "round_half_even (a * ?K) d"
  have Kpos: "0 < ?K" by simp
  have a_eq: "a = ?q * d + ?r" by simp
  show ?thesis
  proof (cases "?r = 0")
    case True
    then have "a = ?q * d" using a_eq by simp
    then have "a * ?K = (?q * ?K) * d" by (metis mult.assoc mult.commute)
    then have "?m = round_half_even ((?q * ?K) * d) d" by (rule arg_cong)
    also have "\<dots> = ?q * ?K" by (rule round_half_even_exact [OF d])
    finally have "?m = ?q * ?K" .
    moreover have "ceil_div a d = ?q"
      using True d by (simp add: ceil_div_def zdiv_zminus1_eq_if)
    moreover have "(- (?q * ?K)) div ?K = - ?q"
    proof -
      have "- (?q * ?K) = (- ?q) * ?K" by simp
      then show ?thesis using Kpos by (metis nonzero_mult_div_cancel_right less_irrefl)
    qed
    ultimately show ?thesis by simp
  next
    case False
    then have r: "0 < ?r" "?r < d"
      using d pos_mod_sign [of d a] pos_mod_bound [of d a] by linarith+
    have cd: "ceil_div a d = ?q + 1"
      using False d by (simp add: ceil_div_def zdiv_zminus1_eq_if)
    have sc: "a * ?K = (?q * ?K) * d + ?r * ?K"
      by (metis a_eq distrib_right mult.assoc mult.commute)
    have dv: "(a * ?K) div d = ?q * ?K + (?r * ?K) div d"
      unfolding sc using d by simp
    have md: "(a * ?K) mod d = (?r * ?K) mod d"
      unfolding sc by simp
    have up: "(?r * ?K) div d \<le> ?K - 1"
    proof -
      have "?r * ?K \<le> (d - 1) * ?K" using r by (simp add: mult_right_mono)
      also have "\<dots> < d * ?K" by (simp add: algebra_simps)
      finally have lt: "?r * ?K < d * ?K" .
      have "d * ((?r * ?K) div d) + (?r * ?K) mod d = ?r * ?K" by simp
      moreover have "0 \<le> (?r * ?K) mod d" using d by simp
      ultimately have "d * ((?r * ?K) div d) < d * ?K" using lt by linarith
      then have "(?r * ?K) div d < ?K" using d by (simp only: mult_less_cancel_left_pos)
      then show ?thesis by simp
    qed
    have hi: "?m \<le> (?q + 1) * ?K"
      using round_half_even_range [OF d, of "a * ?K"] dv up by (simp add: algebra_simps)
    have lo: "?q * ?K < ?m"
    proof (cases "(?r * ?K) div d = 0")
      case True
      then have small: "?r * ?K < d" using d
        by (auto simp: zdiv_eq_0_iff)
      then have "(?r * ?K) mod d = ?r * ?K" using r by simp
      moreover have "d < 2 * (?r * ?K)"
      proof -
        have "1 * ?K \<le> ?r * ?K" using r by (intro mult_right_mono) simp_all
        then have "2 * ?K \<le> 2 * (?r * ?K)" by simp
        with k show ?thesis by linarith
      qed
      ultimately have "?m = (a * ?K) div d + 1"
        using round_half_even_up [OF d, of "a * ?K"] md by simp
      with dv True show ?thesis by simp
    next
      case False
      have "0 \<le> (?r * ?K) div d" using r d by (simp add: pos_imp_zdiv_nonneg_iff)
      with False have "1 \<le> (?r * ?K) div d" by simp
      with round_half_even_range [OF d, of "a * ?K"] dv show ?thesis by simp
    qed
    have "(- ?m) div ?K = - ?q - 1"
    proof (rule int_div_pos_eq [where r = "(?q + 1) * ?K - ?m"])
      show "- ?m = ?K * (- ?q - 1) + ((?q + 1) * ?K - ?m)" by (simp add: algebra_simps)
      show "0 \<le> (?q + 1) * ?K - ?m" using hi by simp
      show "(?q + 1) * ?K - ?m < ?K" using lo by (simp add: algebra_simps)
    qed
    with cd show ?thesis by simp
  qed
qed

lemma ceil_truediv_exact:
  assumes a: "0 \<le> a" "a < 2 ^ 53" and b: "0 < b" "b < 2 ^ 53"
  shows "ceil_truediv a b = Inr (ceil_div a b)"
proof (cases "a = 0")
  case True
  then show ?thesis using b by (simp add: ceil_truediv_def int_true_divide_def ceil_div_def)
next
  case False
  with a have ap: "0 < a" by simp
  let ?e = "floor_log2 a b"
  let ?p = "max ?e (- 1022) - 52"
  have low: "pow2_le ?e a b" by (rule floor_log2_lower [OF ap b(1)])
  have e52: "?e \<le> 52"
  proof (rule ccontr)
    assume "\<not> ?e \<le> 52"
    then have e: "53 \<le> ?e" by simp
    then have "(2::int) ^ 53 \<le> 2 ^ nat ?e" by (intro power_increasing) simp_all
    also have "\<dots> \<le> b * 2 ^ nat ?e" using b(1) by simp
    also have "\<dots> \<le> a" using low e by (simp add: pow2_le_def)
    finally show False using a(2) by simp
  qed
  then have p0: "?p \<le> 0" by simp
  let ?k = "nat (- ?p)"
  have bk: "b < 2 * 2 ^ ?k"
  proof (cases "?e < - 1022")
    case True
    then have "?k = 1074" by simp
    moreover have "(2::int) ^ 53 \<le> 2 * 2 ^ 1074"
      using power_increasing [of 53 1075 "2::int"] by simp
    ultimately show ?thesis using b(2) by simp
  next
    case False
    then have k: "?k = nat (52 - ?e)" by simp
    show ?thesis
    proof (cases "0 \<le> ?e")
      case True
      then have "b * 2 ^ nat ?e \<le> a" using low by (simp add: pow2_le_def)
      also have "a < 2 ^ 53" by (rule a(2))
      also have "(2::int) ^ 53 = 2 ^ (Suc ?k + nat ?e)"
        using True e52 k by (simp add: nat_diff_distrib' flip: nat_add_distrib)
      also have "\<dots> = (2 * 2 ^ ?k) * 2 ^ nat ?e" by (simp add: power_add)
      finally show ?thesis by simp
    next
      case False
      then have "b \<le> a * 2 ^ nat (- ?e)" using low by (simp add: pow2_le_def)
      also have "\<dots> < 2 ^ 53 * 2 ^ nat (- ?e)" using a(2) by simp
      also have "\<dots> = 2 ^ (53 + nat (- ?e))" by (simp add: power_add)
      also have "53 + nat (- ?e) = Suc ?k" using False k by simp
      finally show ?thesis by simp
    qed
  qed
  have m: "- ((- round_half_even (a * 2 ^ ?k) b) div 2 ^ ?k) = ceil_div a b"
    by (rule ceil_round_scaled [OF b(1) a(1) bk])
  have ne: "\<not> 1023 < ?e" "?e \<noteq> 1023" using e52 by simp_all
  show ?thesis
  proof (cases "?p = 0")
    case True
    then have k0: "?k = 0" by simp
    from m have r: "round_half_even a b = ceil_div a b" unfolding k0 by simp
    have "int_true_divide a b = Inr (PyFloat (round_half_even a b) 0)"
      unfolding int_true_divide_def Let_def using ap b(1) ne True by simp
    then show ?thesis
      using r by (simp add: ceil_truediv_def)
  next
    case False
    with p0 have pn: "\<not> 0 \<le> ?p" by simp
    have "int_true_divide a b = Inr (PyFloat (round_half_even (a * 2 ^ ?k) b) ?p)"
      unfolding int_true_divide_def Let_def using ap b(1) ne pn by simp
    then show ?thesis
      using pn m by (simp add: ceil_truediv_def)
  qed
qed

lemma floor_log2_overflow:
  assumes b: "0 < b" and ab: "b * 2 ^ 1024 \<le> a"
  shows "1023 < floor_log2 a b"
proof -
  have a: "0 < a"
  proof -
    have "0 < b * 2 ^ 1024" using b by simp
    with ab show ?thesis by linarith
  qed
  let ?bn = "bit_length a" and ?bd = "bit_length b"
  have pd: "0 < ?bd" using b by (rule bit_length_pos)
  have big: "1024 \<le> ?bn - ?bd"
  proof (rule ccontr)
    assume "\<not> 1024 \<le> ?bn - ?bd"
    then have le: "?bn \<le> ?bd + 1023" by simp
    have "a < 2 ^ nat ?bn" using bit_length_bounds [OF a] by simp
    also have "\<dots> \<le> 2 ^ nat (?bd + 1023)"
      using le by (intro power_increasing) simp_all
    also have "nat (?bd + 1023) = nat (?bd - 1) + 1024" using pd by simp
    also have "(2::int) ^ (nat (?bd - 1) + 1024) = 2 ^ nat (?bd - 1) * 2 ^ 1024"
      by (rule power_add)
    also have "\<dots> \<le> b * 2 ^ 1024"
      using bit_length_bounds [OF b] by (intro mult_right_mono) simp_all
    finally show False using ab by simp
  qed
  show ?thesis
  proof (cases "pow2_le (?bn - ?bd) a b")
    case True
    then show ?thesis using big by (simp add: floor_log2_def)
  next
    case False
    have "?bn - ?bd \<noteq> 1024"
    proof
      assume "?bn - ?bd = 1024"
      with False ab show False by (simp add: pow2_le_def)
    qed
    with big False show ?thesis by (simp add: floor_log2_def)
  qed
qed

lemma ceil_truediv_overflow:
  "0 < b \<Longrightarrow> b * 2 ^ 1024 \<le> a \<Longrightarrow> ceil_truediv a b = Inl OverflowError"
proof -
  assume b: "0 < b" and ab: "b * 2 ^ 1024 \<le> a"
  have "0 < b * 2 ^ 1024" using b by simp
  with ab have a: "0 < a" by linarith
  from floor_log2_overflow [OF b ab] a b show ?thesis
    by (simp add: ceil_truediv_def int_true_divide_def Let_def)
qed

text \<open>
  Below \<open>2 ^ 53\<close> the float quotient has the ceiling of the exact one
  (\<open>ceil_truediv_exact\<close>); from \<open>2 ^ 53 + 1\<close> on it can be smaller, and a task
  provider of that size refuses the exact ceiling as a chunk number.
\<close>

lemma ceil_truediv_rounds_above_2_53: "ceil_truediv (2 ^ 53 + 1) 1 = Inr (2 ^ 53)"
  by code_simp

lemma validate_chunk_number_above_2_53:
  "data_size d = 2 ^ 53 + 1 \<Longrightarrow> chunk_size d = 1 \<Longrightarrow>
   TaskFrameProvider_validate_chunk_number d (ceil_div (data_size d) (chunk_size d))
     = Inl ValidationError"
proof -
  assume d: "data_size d = 2 ^ 53 + 1" "chunk_size d = 1"
  have e: "ceil_truediv 9007199254740993 1 = Inr 9007199254740992"
    using ceil_truediv_rounds_above_2_53 by simp
  show ?thesis
    using d by (simp add: TaskFrameProvider_validate_chunk_number_def e ceil_div_def)
qed

lemma example_stop_chunk: "ceil_truediv 14 3 = Inr 5"
  using ceil_truediv_exact [of 14 3] by (simp add: ceil_div_def)

subsection \<open>Task chunks that no segment serves\<close>

lemma py_range_lower: "0 < s \<Longrightarrow> x \<in> set (py_range a b s) \<Longrightarrow> a \<le> x"
  by (auto simp: py_range_def)

lemma ceil_div_mult_ge: "0 < b \<Longrightarrow> a \<le> ceil_div a b * b"
proof -
  assume "0 < b"
  have "(- a) div b * b \<le> - a"
    using \<open>0 < b\<close> by (metis div_mult_mod_eq le_add_same_cancel1 pos_mod_sign)
  then show ?thesis
    by (simp add: ceil_div_def)
qed

lemma ceil_div_nonneg: "0 < b \<Longrightarrow> 0 \<le> a \<Longrightarrow> 0 \<le> ceil_div a b"
  by (simp add: ceil_div_def div_int_pos_iff neg_imp_zdiv_nonneg_iff zdiv_eq_0_iff
      div_nonpos_pos_le0)

lemma validate_boundary_chunk:
  "0 < chunk_size d \<Longrightarrow> chunk_size d < 2 ^ 53 \<Longrightarrow>
   0 \<le> data_size d \<Longrightarrow> data_size d < 2 ^ 53 \<Longrightarrow>
   TaskFrameProvider_validate_chunk_number d (ceil_div (data_size d) (chunk_size d))
     = Inr (ceil_div (data_size d) (chunk_size d))"
  by (simp add: TaskFrameProvider_validate_chunk_number_def ceil_truediv_exact ceil_div_nonneg)

lemma validate_chunk_number_Inr:
  "TaskFrameProvider_validate_chunk_number d k = Inr k' \<Longrightarrow> k' = k"
  by (auto simp: TaskFrameProvider_validate_chunk_number_def Let_def
      split: if_splits sum.splits)

lemma matching_segments_empty:
  "(\<forall>s \<in> set (segment_set t). segment_type s = RANGE
       \<longrightarrow> set frames \<inter> set (frame_set s) = {})
   \<Longrightarrow> matching_segments t frames = []"
proof -
  assume a: "\<forall>s \<in> set (segment_set t). segment_type s = RANGE
       \<longrightarrow> set frames \<inter> set (frame_set s) = {}"
  have "set (matching_segments t frames) = {}"
    unfolding matching_segments_def using a by auto
  then show ?thesis by simp
qed

lemma get_chunk_no_segment:
  assumes "TaskFrameProvider_validate_chunk_number (task_data t) k = Inr k'"
    and "frame_step (task_data t) \<noteq> 0"
    and "\<forall>s \<in> set (segment_set t). segment_type s = RANGE
           \<longrightarrow> set (task_chunk_frame_range (task_data t) k) \<inter> set (frame_set s) = {}"
  shows "TaskFrameProvider_get_chunk ev t k q c = (Inl AssertionError, c)"
proof -
  have k: "k' = k" by (rule validate_chunk_number_Inr [OF assms(1)])
  show ?thesis
    using assms(1,2) matching_segments_empty [OF assms(3)]
    by (simp add: TaskFrameProvider_get_chunk_def k Let_def)
qed

lemma boundary_range_above_stop:
  assumes cs: "0 < chunk_size d" and st: "0 < frame_step d"
    and sz: "data_size d = (stop_frame d - start_frame d) div frame_step d + 1"
    and x: "x \<in> set (task_chunk_frame_range d (ceil_div (data_size d) (chunk_size d)))"
  shows "stop_frame d < x"
proof -
  let ?k = "ceil_div (data_size d) (chunk_size d)"
  have "start_frame d + ?k * chunk_size d * frame_step d \<le> x"
    using x st by (auto simp: task_chunk_frame_range_def Let_def dest: py_range_lower)
  moreover have "data_size d * frame_step d \<le> ?k * chunk_size d * frame_step d"
    using ceil_div_mult_ge [OF cs, of "data_size d"] st by (simp add: mult_right_mono)
  moreover have "stop_frame d - start_frame d < data_size d * frame_step d"
  proof -
    let ?n = "stop_frame d - start_frame d"
    have m: "?n mod frame_step d < frame_step d"
      using st by simp
    have e: "?n = ?n div frame_step d * frame_step d + ?n mod frame_step d"
      by simp
    have "data_size d * frame_step d = ?n div frame_step d * frame_step d + frame_step d"
      by (simp add: sz algebra_simps)
    with m e show ?thesis by linarith
  qed
  ultimately show ?thesis by linarith
qed

text \<open>
  C10. (1) For a positive chunk size and a non-negative size, both below \<open>2 ^ 53\<close>,
  \<open>validate_chunk_number\<close> of the task provider accepts \<open>ceil (size / chunk_size)\<close>.
  (2) For every chunk number that validation accepts and whose frame window meets no
  \<open>RANGE\<close> segment of the task, \<open>get_chunk\<close> fails on the assertion
  \<^verbatim>\<open>assert matching_segments\<close> (not with a validation error), leaving the cache as it
  was. (3) The boundary value is such a chunk number: when the size is the number of
  frames of the data, size and chunk size are below \<open>2 ^ 53\<close>, and no \<open>RANGE\<close> segment
  holds a frame beyond the stop frame, \<open>get_chunk\<close> at \<open>ceil (size / chunk_size)\<close>
  fails on that assertion.
\<close>

theorem validated_chunk_number_unservable:
  "(0 < chunk_size d \<and> chunk_size d < 2 ^ 53 \<and> 0 \<le> data_size d \<and> data_size d < 2 ^ 53
      \<longrightarrow> TaskFrameProvider_validate_chunk_number d (ceil_div (data_size d) (chunk_size d))
            = Inr (ceil_div (data_size d) (chunk_size d)))
 \<and> (TaskFrameProvider_validate_chunk_number (task_data t) k = Inr k'
      \<and> frame_step (task_data t) \<noteq> 0
      \<and> (\<forall>s \<in> set (segment_set t). segment_type s = RANGE
             \<longrightarrow> set (task_chunk_frame_range (task_data t) k) \<inter> set (frame_set s) = {})
      \<longrightarrow> TaskFrameProvider_get_chunk ev t k q c = (Inl AssertionError, c))
 \<and> (0 < chunk_size (task_data t) \<and> chunk_size (task_data t) < 2 ^ 53
      \<and> data_size (task_data t) < 2 ^ 53 \<and> 0 < frame_step (task_data t)
      \<and> start_frame (task_data t) \<le> stop_frame (task_data t)
      \<and> data_size (task_data t)
          = (stop_frame (task_data t) - start_frame (task_data t)) div frame_step (task_data t) + 1
      \<and> (\<forall>s \<in> set (segment_set t). segment_type s = RANGE
             \<longrightarrow> (\<forall>f \<in> set (frame_set s). f \<le> stop_frame (task_data t)))
      \<longrightarrow> TaskFrameProvider_get_chunk ev t
            (ceil_div (data_size (task_data t)) (chunk_size (task_data t))) q c
            = (Inl AssertionError, c))"
proof (intro conjI impI)
  assume "0 < chunk_size d \<and> chunk_size d < 2 ^ 53 \<and> 0 \<le> data_size d \<and> data_size d < 2 ^ 53"
  then show "TaskFrameProvider_validate_chunk_number d (ceil_div (data_size d) (chunk_size d))
            = Inr (ceil_div (data_size d) (chunk_size d))"
    by (simp add: validate_boundary_chunk)
next
  assume "TaskFrameProvider_validate_chunk_number (task_data t) k = Inr k'
      \<and> frame_step (task_data t) \<noteq> 0
      \<and> (\<forall>s \<in> set (segment_set t). segment_type s = RANGE
             \<longrightarrow> set (task_chunk_frame_range (task_data t) k) \<inter> set (frame_set s) = {})"
  then show "TaskFrameProvider_get_chunk ev t k q c = (Inl AssertionError, c)"
    using get_chunk_no_segment by blast
next
  let ?d = "task_data t"
  let ?k = "ceil_div (data_size ?d) (chunk_size ?d)"
  assume a: "0 < chunk_size ?d \<and> chunk_size ?d < 2 ^ 53
      \<and> data_size ?d < 2 ^ 53 \<and> 0 < frame_step ?d
      \<and> start_frame ?d \<le> stop_frame ?d
      \<and> data_size ?d = (stop_frame ?d - start_frame ?d) div frame_step ?d + 1
      \<and> (\<forall>s \<in> set (segment_set t). segment_type s = RANGE
             \<longrightarrow> (\<forall>f \<in> set (frame_set s). f \<le> stop_frame ?d))"
  then have "0 \<le> (stop_frame ?d - start_frame ?d) div frame_step ?d"
    by (simp add: pos_imp_zdiv_nonneg_iff)
  with a have size: "0 \<le> data_size ?d" by simp
  from a have cs: "0 < chunk_size ?d" "chunk_size ?d < 2 ^ 53" by blast+
  from a have sz: "data_size ?d < 2 ^ 53" by blast
  have v: "TaskFrameProvider_validate_chunk_number ?d ?k = Inr ?k"
    by (rule validate_boundary_chunk [OF cs size sz])
  have disj: "\<forall>s \<in> set (segment_set t). segment_type s = RANGE
             \<longrightarrow> set (task_chunk_frame_range ?d ?k) \<inter> set (frame_set s) = {}"
  proof (intro ballI impI)
    fix s assume s: "s \<in> set (segment_set t)" "segment_type s = RANGE"
    show "set (task_chunk_frame_range ?d ?k) \<inter> set (frame_set s) = {}"
    proof (rule ccontr)
      assume "set (task_chunk_frame_range ?d ?k) \<inter> set (frame_set s) \<noteq> {}"
      then obtain x where x: "x \<in> set (task_chunk_frame_range ?d ?k)" "x \<in> set (frame_set s)"
        by blast
      from boundary_range_above_stop [of ?d x] a x(1) have "stop_frame ?d < x" by simp
      moreover from a s x(2) have "x \<le> stop_frame ?d" by blast
      ultimately show False by simp
    qed
  qed
  show "TaskFrameProvider_get_chunk ev t ?k q c = (Inl AssertionError, c)"
    using get_chunk_no_segment [OF v _ disj] a by simp
qed

lemma example_task_fields:
  "task_data example_task = example_data"
  "dimension example_task = DIM_2D"
  "segment_set example_task = [example_segment_1, example_segment_2]"
  by (simp_all add: example_task_def)

lemma example_segment_fields:
  "segment_id example_segment_1 = 1" "segment_type example_segment_1 = RANGE"
  "segment_start_frame example_segment_1 = 0"
  "frame_set example_segment_1 = [0, 1, 2, 3, 4, 5, 6]"
  "segment_id example_segment_2 = 2" "segment_type example_segment_2 = RANGE"
  "segment_start_frame example_segment_2 = 7"
  "frame_set example_segment_2 = [7, 8, 9, 10, 11, 12, 13]"
  by (simp_all add: example_segment_1_def example_segment_2_def)

lemma example_data_fields:
  "start_frame example_data = 0" "stop_frame example_data = 13"
  "frame_step example_data = 1" "chunk_size example_data = 3" "data_size example_data = 14"
  "image_quality example_data = 70" "storage_method example_data = CACHE"
  "compressed_chunk_type example_data = IMAGESET"
  "original_chunk_type example_data = IMAGESET" "video example_data = None"
  by (simp_all add: example_data_def)

theorem validated_chunk_number_unservable_witness:
  "TaskFrameProvider_validate_chunk_number example_data 5 = Inr 5
 \<and> TaskFrameProvider_get_chunk example_env example_task 5 ORIGINAL Map.empty
     = (Inl AssertionError, Map.empty)"
proof -
  have k: "ceil_div (data_size example_data) (chunk_size example_data) = 5"
    by (simp add: example_data_fields ceil_div_def)
  have r: "task_chunk_frame_range example_data 5 = []"
    by (simp add: task_chunk_frame_range_def example_data_fields py_range_def)
  note inst = validated_chunk_number_unservable
    [where d = example_data and t = example_task and k = 5 and k' = 5 and ev = example_env
       and q = ORIGINAL and c = Map.empty]
  from inst have v: "TaskFrameProvider_validate_chunk_number example_data 5 = Inr 5"
    using k by (simp add: example_data_fields)
  from inst v r have "TaskFrameProvider_get_chunk example_env example_task 5 ORIGINAL Map.empty
     = (Inl AssertionError, Map.empty)"
    by (simp add: example_task_fields example_data_fields)
  with v show ?thesis by simp
qed


subsection \<open>Masked-range chunks\<close>

text \<open>
  What the generator of the masked-range producer yields, for data without a video
  descriptor: one frame per loop index up to the first index whose slot id
  \<open>start_frame + chunk_number * chunk_size + i * frame_step\<close> lies beyond the stop
  frame, and the placeholder at every position whose slot id is not among the chunk's
  frame ids.
\<close>

lemma get_frames_slots:
  assumes "get_frames ev d k ids idxs rd = Inr frs"
  shows "length frs
           = length (takeWhile
               (\<lambda>i. start_frame d + k * chunk_size d + i * frame_step d \<le> stop_frame d) idxs)
       \<and> (\<forall>j < length frs.
             start_frame d + k * chunk_size d + idxs ! j * frame_step d \<notin> set ids
             \<longrightarrow> frs ! j = Encoded (dummy_frame ev))"
  using assms
proof (induction idxs arbitrary: rd frs)
  case Nil
  then show ?case by simp
next
  case (Cons i rest)
  let ?slot = "start_frame d + k * chunk_size d + i * frame_step d"
  show ?case
  proof (cases "stop_frame d < ?slot")
    case True
    with Cons.prems show ?thesis by (simp add: Let_def)
  next
    case False
    show ?thesis
    proof (cases "?slot \<in> set ids")
      case True
      with False Cons.prems obtain raw rd' frs' where
        "get_frames ev d k ids rest rd' = Inr frs'" and frs: "frs = (case video d of
                             Some frame_size \<Rightarrow>
                               (let img = ToImage raw
                                in if image_size ev img \<noteq> frame_size
                                   then Resized frame_size img else img)
                           | None \<Rightarrow> raw) # frs'"
        by (auto simp: Let_def split: sum.splits prod.splits)
      from Cons.IH [OF this(1)] False True show ?thesis
        by (auto simp: frs nth_Cons split: nat.splits)
    next
      case notin: False
      with False Cons.prems obtain frs' where
        "get_frames ev d k ids rest rd = Inr frs'" and frs: "frs = Encoded (dummy_frame ev) # frs'"
        by (auto simp: Let_def split: sum.splits)
      from Cons.IH [OF this(1)] False notin show ?thesis
        by (auto simp: frs nth_Cons split: nat.splits)
    qed
  qed
qed

text \<open>
  C1 at a frame step of 2. Chunk 1 of the example segment has the frame ids 6, 8 and
  10. The slot ids the generator computes are \<open>0 + 1 * 3 + i * 2\<close>, that is 3, 5 and
  7 (\<open>chunk_number * chunk_size\<close> is not multiplied by the frame step), none of them a
  frame id of the chunk: all three positions get the placeholder and no frame of the
  segment is read.
\<close>

theorem masked_chunk_slot_ids_at_frame_step_2:
  "py_slice (frame_set masked_example_segment)
       (chunk_size masked_example_data * 1) (chunk_size masked_example_data * (1 + 1))
     = [6, 8, 10]
 \<and> map (\<lambda>i. start_frame masked_example_data + 1 * chunk_size masked_example_data
               + i * frame_step masked_example_data) [0, 1, 2] = [3, 5, 7]
 \<and> get_frames ev masked_example_data 1 [6, 8, 10]
       (map int [0 ..< nat (chunk_size masked_example_data)]) (Unstarted [6, 8, 10])
     = Inr [Encoded (dummy_frame ev), Encoded (dummy_frame ev), Encoded (dummy_frame ev)]
 \<and> prepare_masked_range_segment_chunk ev masked_example_task masked_example_segment 1 COMPRESSED
     = (case save_as_chunk ev
               \<lparr>writer_class = ZipCompressedChunkWriter, writer_quality = 70,
                writer_dimension = Some DIM_2D, compress_frames = None,
                zip_compress_level = Some 1\<rparr>
               [Encoded (dummy_frame ev), Encoded (dummy_frame ev), Encoded (dummy_frame ev)] of
          Inl e \<Rightarrow> Inl e
        | Inr buff \<Rightarrow> Inr (buff, ''application/zip''))"
proof -
  have upt: "map int [0 ..< nat 3] = [0, 1, 2]"
    by (simp add: upt_rec)
  have sl: "py_slice [0, 2, 4, 6, 8, 10 :: int] 3 6 = [6, 8, 10]"
    by (simp add: py_slice_def)
  have gf: "get_frames ev masked_example_data 1 [6, 8, 10] [0, 1, 2] (Unstarted [6, 8, 10])
     = Inr [Encoded (dummy_frame ev), Encoded (dummy_frame ev), Encoded (dummy_frame ev)]"
    by (simp add: masked_example_data_def)
  show ?thesis
    using upt sl gf
    by (simp add: prepare_masked_range_segment_chunk_def masked_example_task_def
        masked_example_segment_def masked_example_data_def split: sum.splits)
qed


subsection \<open>Segment preview\<close>

lemma get_rel_frame_number_undefined:
  "''get_rel_frame_number'' \<notin> set TaskFrameProvider_attributes"
  by (simp add: TaskFrameProvider_attributes_def)

lemma prepare_segment_preview_2d:
  "dimension db_task = DIM_2D
   \<Longrightarrow> prepare_segment_preview ev db_task db_segment c = (Inl AttributeError, c)"
  by (simp add: prepare_segment_preview_def get_rel_frame_number_undefined)

lemma get_or_set_miss_error:
  "cache_get c key = None \<Longrightarrow> cb c = (Inl e, c') \<Longrightarrow>
   get_or_set_cache_item c key cb = (Inl e, c')"
  by (simp add: get_or_set_cache_item_def create_item_def)

text \<open>
  C8 on the example task (2D, image set). The producer never reaches the frame: the
  call \<^verbatim>\<open>task_frame_provider.get_rel_frame_number(...)\<close> names a method that
  \<^verbatim>\<open>TaskFrameProvider\<close> does not have, so the producer raises \<^verbatim>\<open>AttributeError\<close>
  and get-or-set, on a miss, passes the error on and stores nothing.
\<close>

theorem segment_preview_2d_raises:
  "prepare_segment_preview ev example_task example_segment_1 c
     = (Inl AttributeError, c)
 \<and> get_or_set_segment_preview ev example_task example_segment_1 Map.empty
     = (Inl AttributeError, Map.empty)"
proof -
  have d: "dimension example_task = DIM_2D"
    by (simp add: example_task_def)
  have p: "prepare_segment_preview ev example_task db_segment c0 = (Inl AttributeError, c0)"
    for db_segment c0
    by (rule prepare_segment_preview_2d [OF d])
  show ?thesis
    by (simp add: p get_or_set_segment_preview_def get_or_set_miss_error cache_get_def)
qed

subsection \<open>Cloud storage preview\<close>

lemma refresh_manifest_fresh:
  assumes "get_file_last_modified storage g = Inr t"
    and "download_file storage g = Inr m"
    and "\<forall>mt cont. fs p = Some (mt, cont) \<longrightarrow> \<not> mt < t \<longrightarrow> cont = m"
  shows "refresh_manifest storage now g p fs = (Inr m, fs)
       \<or> refresh_manifest storage now g p fs = (Inr m, fs(p \<mapsto> (now, m)))"
  using assms
  by (auto simp: refresh_manifest_def split: option.splits)

lemma copies_agree_update:
  assumes "copies_agree dir lm rm names fs" and "inj_on (path_join dir) names" and "g \<in> names"
  shows "copies_agree dir lm rm names (fs(path_join dir g \<mapsto> (now, rm g)))"
  using assms
  by (auto simp: copies_agree_def dest: inj_onD)

lemma refresh_manifest_agree:
  assumes "get_file_last_modified storage g = Inr (lm g)"
    and "download_file storage g = Inr (rm g)"
    and "copies_agree dir lm rm names fs" and "inj_on (path_join dir) names" and "g \<in> names"
  shows "\<exists>fs'. refresh_manifest storage now g (path_join dir g) fs = (Inr (rm g), fs')
           \<and> copies_agree dir lm rm names fs'"
proof -
  have "\<forall>mt cont. fs (path_join dir g) = Some (mt, cont) \<longrightarrow> \<not> mt < lm g \<longrightarrow> cont = rm g"
    using assms(3,5) by (simp add: copies_agree_def)
  from refresh_manifest_fresh
    [where fs = fs and p = "path_join dir g" and now = now, OF assms(1,2) this]
  show ?thesis
    using assms(3) copies_agree_update [OF assms(3,4,5), of now] by auto
qed

lemma find_preview_path_all_empty:
  assumes "\<forall>g \<in> set ms. get_file_last_modified storage g = Inr (lm g)
             \<and> download_file storage g = Inr (rm g) \<and> rm g = []"
    and "copies_agree dir lm rm names fs" and "inj_on (path_join dir) names"
    and "set ms \<subseteq> names"
  shows "fst (find_preview_path storage now dir ms fs) = Inr None"
  using assms
proof (induction ms arbitrary: fs)
  case Nil
  then show ?case by simp
next
  case (Cons g ms)
  from Cons.prems have g: "get_file_last_modified storage g = Inr (lm g)"
    "download_file storage g = Inr (rm g)" "rm g = []" "g \<in> names"
    by auto
  from refresh_manifest_agree [OF g(1,2) Cons.prems(2,3) g(4), of now]
  obtain fs' where r: "refresh_manifest storage now g (path_join dir g) fs = (Inr (rm g), fs')"
    and a: "copies_agree dir lm rm names fs'"
    by blast
  have "fst (find_preview_path storage now dir ms fs') = Inr None"
    using Cons.IH [OF _ a Cons.prems(3)] Cons.prems(1,4) by simp
  then show ?case
    by (simp add: r g(3))
qed

lemma find_preview_path_first_nonempty:
  assumes "\<forall>g \<in> set (pre @ [f]). get_file_last_modified storage g = Inr (lm g)
             \<and> download_file storage g = Inr (rm g)"
    and "\<forall>g \<in> set pre. rm g = []" and "rm f = e # es"
    and "copies_agree dir lm rm names fs" and "inj_on (path_join dir) names"
    and "set (pre @ [f]) \<subseteq> names"
  shows "fst (find_preview_path storage now dir (pre @ f # post) fs)
           = Inr (Some (path_join (path_dirname f) (entry_name e @ entry_extension e)))"
  using assms
proof (induction pre arbitrary: fs)
  case Nil
  then have g: "get_file_last_modified storage f = Inr (lm f)"
    "download_file storage f = Inr (rm f)" "f \<in> names"
    by auto
  from refresh_manifest_agree [OF g(1,2) Nil.prems(4,5) g(3), of now]
  obtain fs' where r: "refresh_manifest storage now f (path_join dir f) fs = (Inr (rm f), fs')"
    by blast
  show ?case
    by (simp add: r Nil.prems(3) Let_def)
next
  case (Cons g pre)
  from Cons.prems have g: "get_file_last_modified storage g = Inr (lm g)"
    "download_file storage g = Inr (rm g)" "rm g = []" "g \<in> names"
    by auto
  from refresh_manifest_agree [OF g(1,2) Cons.prems(4,5) g(4), of now]
  obtain fs' where r: "refresh_manifest storage now g (path_join dir g) fs = (Inr (rm g), fs')"
    and a: "copies_agree dir lm rm names fs'"
    by blast
  have "fst (find_preview_path storage now dir (pre @ f # post) fs')
           = Inr (Some (path_join (path_dirname f) (entry_name e @ entry_extension e)))"
    using Cons.IH [OF _ _ Cons.prems(3) a Cons.prems(5)] Cons.prems(1,2,6) by simp
  then show ?case
    by (simp add: r g(3))
qed

lemma get_or_set_not_verified:
  "\<not> verified_hit c key \<Longrightarrow>
   get_or_set_cache_item c key cb =
     (case create_item c key cb of
        (Inl e, c') \<Rightarrow> (Inl e, c')
      | (Inr (d, mime, _), c') \<Rightarrow> (Inr (d, mime), c'))"
  by (auto simp: get_or_set_cache_item_def verified_hit_def split: option.splits)

lemma get_or_set_cloud_preview_not_verified:
  assumes "\<not> verified_hit c (CloudStoragePreviewKey (storage_id db_storage))"
  shows "fst (get_or_set_cloud_preview ev storage now db_storage c fs)
           = (case fst (prepare_cloud_preview ev storage now db_storage fs) of
                Inl e \<Rightarrow> Inl e
              | Inr (buff, mime_type) \<Rightarrow> Inr (Some (BytesIO buff), mime_type))"
  using assms
  by (auto simp: get_or_set_cloud_preview_def get_or_set_not_verified create_item_def Let_def
      split: prod.splits sum.splits)

text \<open>
  C7, as stated, fails for a binding without manifests: the producer raises the
  validation error, not \<open>NotFound\<close>, and on a miss get-or-set passes it on.
\<close>

theorem cloud_preview_without_manifests:
  "fst (get_or_set_cloud_preview example_env example_store 10 empty_cloud_storage
          Map.empty Map.empty) = Inl ValidationError
 \<and> fst (get_or_set_cloud_preview example_env example_store 10 empty_cloud_storage
          Map.empty Map.empty) \<noteq> Inl NotFound"
  by (simp add: get_or_set_cloud_preview_not_verified verified_hit_def cache_get_def
      prepare_cloud_preview_def empty_cloud_storage_def)

text \<open>
  C7, amended. Unless the cache holds a verified preview under the key,
  \<open>get_or_set_cloud_preview\<close> (and the producer in any case)
  (1) fails with the validation error when the binding has no manifest file;
  (2) fails with \<open>NotFound\<close> when it has manifests and every one of them is empty;
  (3) otherwise takes the first entry \<open>e\<close> of the first non-empty manifest \<open>f\<close>,
  downloads the object at \<open>dirname f / (name e + extension e)\<close> and returns its bytes
  with the MIME type guessed from that path.
  In (2) and (3) the blob store answers for the manifests that are visited (\<open>lm\<close> their
  remote modification times, \<open>rm\<close> their contents), a local copy that is not older than
  the remote file holds the remote content, and distinct manifests have distinct local
  paths.
\<close>

theorem cloud_preview_errors_and_first_entry:
  "(manifests db_storage = []
      \<longrightarrow> fst (prepare_cloud_preview ev storage now db_storage fs) = Inl ValidationError
        \<and> (\<not> verified_hit c (CloudStoragePreviewKey (storage_id db_storage))
             \<longrightarrow> fst (get_or_set_cloud_preview ev storage now db_storage c fs)
                   = Inl ValidationError))
 \<and> (manifests db_storage \<noteq> []
      \<and> (\<forall>g \<in> set (manifests db_storage).
             get_file_last_modified storage g = Inr (lm g)
             \<and> download_file storage g = Inr (rm g) \<and> rm g = [])
      \<and> copies_agree (storage_dirname db_storage) lm rm (set (manifests db_storage)) fs
      \<and> inj_on (path_join (storage_dirname db_storage)) (set (manifests db_storage))
      \<longrightarrow> fst (prepare_cloud_preview ev storage now db_storage fs) = Inl NotFound
        \<and> (\<not> verified_hit c (CloudStoragePreviewKey (storage_id db_storage))
             \<longrightarrow> fst (get_or_set_cloud_preview ev storage now db_storage c fs) = Inl NotFound))
 \<and> (manifests db_storage = pre @ f # post
      \<and> (\<forall>g \<in> set (pre @ [f]).
             get_file_last_modified storage g = Inr (lm g)
             \<and> download_file storage g = Inr (rm g))
      \<and> (\<forall>g \<in> set pre. rm g = []) \<and> rm f = e # es
      \<and> copies_agree (storage_dirname db_storage) lm rm (set (manifests db_storage)) fs
      \<and> inj_on (path_join (storage_dirname db_storage)) (set (manifests db_storage))
      \<and> path = path_join (path_dirname f) (entry_name e @ entry_extension e)
      \<and> path \<noteq> [] \<and> download_fileobj storage path = Inr buff
      \<longrightarrow> fst (prepare_cloud_preview ev storage now db_storage fs)
            = Inr (buff, guess_type ev path)
        \<and> (\<not> verified_hit c (CloudStoragePreviewKey (storage_id db_storage))
             \<longrightarrow> fst (get_or_set_cloud_preview ev storage now db_storage c fs)
                   = Inr (Some (BytesIO buff), guess_type ev path)))"
proof (intro conjI impI)
  assume "manifests db_storage = []"
  then show p: "fst (prepare_cloud_preview ev storage now db_storage fs) = Inl ValidationError"
    by (simp add: prepare_cloud_preview_def)
  assume "\<not> verified_hit c (CloudStoragePreviewKey (storage_id db_storage))"
  then show "fst (get_or_set_cloud_preview ev storage now db_storage c fs) = Inl ValidationError"
    by (simp add: get_or_set_cloud_preview_not_verified p)
next
  assume a: "manifests db_storage \<noteq> []
      \<and> (\<forall>g \<in> set (manifests db_storage).
             get_file_last_modified storage g = Inr (lm g)
             \<and> download_file storage g = Inr (rm g) \<and> rm g = [])
      \<and> copies_agree (storage_dirname db_storage) lm rm (set (manifests db_storage)) fs
      \<and> inj_on (path_join (storage_dirname db_storage)) (set (manifests db_storage))"
  then have "fst (find_preview_path storage now (storage_dirname db_storage)
                    (manifests db_storage) fs) = Inr None"
    using find_preview_path_all_empty
      [of "manifests db_storage" storage lm rm "storage_dirname db_storage"
          "set (manifests db_storage)" fs now]
    by simp
  with a show p: "fst (prepare_cloud_preview ev storage now db_storage fs) = Inl NotFound"
    by (auto simp: prepare_cloud_preview_def split: prod.splits sum.splits)
  assume "\<not> verified_hit c (CloudStoragePreviewKey (storage_id db_storage))"
  then show "fst (get_or_set_cloud_preview ev storage now db_storage c fs) = Inl NotFound"
    by (simp add: get_or_set_cloud_preview_not_verified p)
next
  assume a: "manifests db_storage = pre @ f # post
      \<and> (\<forall>g \<in> set (pre @ [f]).
             get_file_last_modified storage g = Inr (lm g)
             \<and> download_file storage g = Inr (rm g))
      \<and> (\<forall>g \<in> set pre. rm g = []) \<and> rm f = e # es
      \<and> copies_agree (storage_dirname db_storage) lm rm (set (manifests db_storage)) fs
      \<and> inj_on (path_join (storage_dirname db_storage)) (set (manifests db_storage))
      \<and> path = path_join (path_dirname f) (entry_name e @ entry_extension e)
      \<and> path \<noteq> [] \<and> download_fileobj storage path = Inr buff"
  then have sub: "set (pre @ [f]) \<subseteq> set (manifests db_storage)"
    by auto
  from a have "fst (find_preview_path storage now (storage_dirname db_storage)
                    (pre @ f # post) fs)
      = Inr (Some (path_join (path_dirname f) (entry_name e @ entry_extension e)))"
    by (intro find_preview_path_first_nonempty
        [where lm = lm and rm = rm and es = es and names = "set (manifests db_storage)"] sub)
      blast+
  with a have "fst (find_preview_path storage now (storage_dirname db_storage)
                    (manifests db_storage) fs) = Inr (Some path)"
    by simp
  with a show p: "fst (prepare_cloud_preview ev storage now db_storage fs)
            = Inr (buff, guess_type ev path)"
    by (auto simp: prepare_cloud_preview_def split: prod.splits sum.splits)
  assume "\<not> verified_hit c (CloudStoragePreviewKey (storage_id db_storage))"
  then show "fst (get_or_set_cloud_preview ev storage now db_storage c fs)
                   = Inr (Some (BytesIO buff), guess_type ev path)"
    by (simp add: get_or_set_cloud_preview_not_verified p)
qed

lemma example_paths:
  "path_dirname ''b/manifest.jsonl'' = ''b''"
  "path_join ''b'' ''img_1.png'' = ''b/img_1.png''"
  "path_join ''/data/2'' ''a/manifest.jsonl'' = ''/data/2/a/manifest.jsonl''"
  "path_join ''/data/2'' ''b/manifest.jsonl'' = ''/data/2/b/manifest.jsonl''"
  by (simp_all add: path_dirname_def path_join_def)

lemma example_store_fields:
  "get_file_last_modified example_store g = Inr 5"
  "download_file example_store ''a/manifest.jsonl'' = Inr []"
  "download_file example_store ''b/manifest.jsonl''
     = Inr [\<lparr>entry_name = ''img_1'', entry_extension = ''.png''\<rparr>,
            \<lparr>entry_name = ''img_2'', entry_extension = ''.png''\<rparr>]"
  "download_fileobj example_store ''b/img_1.png'' = Inr [0x61]"
  by (simp_all add: example_store_def)

theorem cloud_preview_errors_and_first_entry_witness:
  "fst (get_or_set_cloud_preview example_env example_store 10 empty_cloud_storage
          Map.empty Map.empty) = Inl ValidationError
 \<and> fst (get_or_set_cloud_preview example_env example_store 10
          (example_cloud_storage\<lparr>manifests := [''a/manifest.jsonl'']\<rparr>)
          Map.empty Map.empty) = Inl NotFound
 \<and> fst (get_or_set_cloud_preview example_env example_store 10 example_cloud_storage
          Map.empty Map.empty) = Inr (Some (BytesIO [0x61]), Some ''image/jpeg'')"
proof -
  let ?lm = "\<lambda>g::string. 5::int"
  let ?rm = "\<lambda>g. if g = ''a/manifest.jsonl'' then []
                 else [\<lparr>entry_name = ''img_1'', entry_extension = ''.png''\<rparr>,
                       \<lparr>entry_name = ''img_2'', entry_extension = ''.png''\<rparr>]"
  have nohit: "\<not> verified_hit (Map.empty :: key cache) k" for k
    by (simp add: verified_hit_def cache_get_def)
  have one: "fst (get_or_set_cloud_preview example_env example_store 10 empty_cloud_storage
          Map.empty Map.empty) = Inl ValidationError"
    using cloud_preview_errors_and_first_entry
      [where db_storage = empty_cloud_storage and ev = example_env and storage = example_store
         and now = 10 and c = Map.empty and fs = Map.empty]
      nohit
    by (simp add: empty_cloud_storage_def)
  have two: "fst (get_or_set_cloud_preview example_env example_store 10
          (example_cloud_storage\<lparr>manifests := [''a/manifest.jsonl'']\<rparr>)
          Map.empty Map.empty) = Inl NotFound"
    using cloud_preview_errors_and_first_entry
      [where db_storage = "example_cloud_storage\<lparr>manifests := [''a/manifest.jsonl'']\<rparr>"
         and ev = example_env and storage = example_store
         and now = 10 and c = Map.empty and fs = Map.empty and lm = ?lm and rm = ?rm]
      nohit
    by (simp add: example_cloud_storage_def example_store_fields copies_agree_def)
  have three: "fst (get_or_set_cloud_preview example_env example_store 10 example_cloud_storage
          Map.empty Map.empty) = Inr (Some (BytesIO [0x61]), Some ''image/jpeg'')"
    using cloud_preview_errors_and_first_entry
      [where db_storage = example_cloud_storage
         and ev = example_env and storage = example_store
         and now = 10 and c = Map.empty and fs = Map.empty and lm = ?lm and rm = ?rm
         and pre = "[''a/manifest.jsonl'']" and f = "''b/manifest.jsonl''" and post = "[]"
         and e = "\<lparr>entry_name = ''img_1'', entry_extension = ''.png''\<rparr>"
         and es = "[\<lparr>entry_name = ''img_2'', entry_extension = ''.png''\<rparr>]"
         and path = "''b/img_1.png''" and buff = "[0x61]"]
      nohit
    by (simp add: example_cloud_storage_def example_store_fields copies_agree_def
        example_paths example_env_fields)
  from one two three show ?thesis by simp
qed


subsection \<open>Joined task chunks\<close>

lemma collect_append:
  "collect (xs @ ys) =
     (case collect xs of
        Inl e \<Rightarrow> Inl e
      | Inr a \<Rightarrow> (case collect ys of Inl e \<Rightarrow> Inl e | Inr b \<Rightarrow> Inr (a @ b)))"
  by (induction xs rule: collect.induct) (auto split: sum.splits)

lemma differ_on_segments_refl: "differ_on_segments segs q c c"
  by (simp add: differ_on_segments_def)

lemma differ_on_segments_trans:
  "differ_on_segments segs q c c' \<Longrightarrow> differ_on_segments segs q c' c''
   \<Longrightarrow> differ_on_segments segs q c c''"
  unfolding differ_on_segments_def by metis

lemma differ_on_segments_mono:
  "differ_on_segments segs q c c' \<Longrightarrow> segs \<subseteq> segs' \<Longrightarrow> differ_on_segments segs' q c c'"
  unfolding differ_on_segments_def by blast

lemma differ_on_segments_update:
  "s \<in> segs \<Longrightarrow> differ_on_segments segs q c (c(SegmentChunkKey (segment_id s) k q \<mapsto> v))"
  unfolding differ_on_segments_def by auto

lemma cache_coherent_store:
  assumes coh: "cache_coherent ev t c"
    and s: "s \<in> set (segment_set t)" and inj: "inj_on segment_id (set (segment_set t))"
    and p: "prepare_segment_chunk ev t s k q = Inr (buff, m)"
  shows "cache_coherent ev t
           (c(SegmentChunkKey (segment_id s) k q \<mapsto> Pickled (CacheItem (BytesIO buff) m' crc)))"
  unfolding cache_coherent_def
proof (intro ballI allI impI)
  fix s' k' q' item
  let ?c' = "c(SegmentChunkKey (segment_id s) k q \<mapsto> Pickled (CacheItem (BytesIO buff) m' crc))"
  assume s': "s' \<in> set (segment_set t)"
    and g: "cache_get ?c' (SegmentChunkKey (segment_id s') k' q') = Some item"
    and v: "item_checksum item = Some (get_checksum (getbuffer (item_data item)))"
  show "\<exists>buff mime_type. prepare_segment_chunk ev t s' k' q' = Inr (buff, mime_type)
           \<and> item_data item = BytesIO buff"
  proof (cases "SegmentChunkKey (segment_id s') k' q' = SegmentChunkKey (segment_id s) k q")
    case True
    then have "s' = s" "k' = k" "q' = q"
      using inj s s' by (auto dest: inj_onD)
    with g p show ?thesis
      by (auto simp: cache_get_def)
  next
    case False
    then have "cache_get c (SegmentChunkKey (segment_id s') k' q') = Some item"
      using g by (auto simp: cache_get_def split: if_splits)
    with coh s' v show ?thesis
      unfolding cache_coherent_def by blast
  qed
qed

lemma get_segment_chunk_coherent:
  assumes coh: "cache_coherent ev t c"
    and s: "s \<in> set (segment_set t)" and inj: "inj_on segment_id (set (segment_set t))"
    and g: "get_segment_chunk ev t s k q c = (r, c')"
  shows "(case prepare_segment_chunk ev t s k q of
            Inl e \<Rightarrow> r = Inl e
          | Inr (buff, m) \<Rightarrow> (\<exists>m'. r = Inr (Some (BytesIO buff), m')))
       \<and> cache_coherent ev t c' \<and> differ_on_segments {s} q c c'"
proof (cases "verified_hit c (SegmentChunkKey (segment_id s) k q)")
  case True
  then obtain item where item: "cache_get c (SegmentChunkKey (segment_id s) k q) = Some item"
    and v: "item_checksum item = Some (get_checksum (getbuffer (item_data item)))"
    by (auto simp: verified_hit_def split: option.splits)
  from coh s item v obtain buff m where
    p: "prepare_segment_chunk ev t s k q = Inr (buff, m)" and d: "item_data item = BytesIO buff"
    unfolding cache_coherent_def by blast
  from g item v have "r = Inr (Some (item_data item), item_mime item)" "c' = c"
    by (auto simp: get_segment_chunk_def get_or_set_cache_item_def)
  with p d coh show ?thesis
    by (simp add: differ_on_segments_refl)
next
  case False
  show ?thesis
  proof (cases "prepare_segment_chunk ev t s k q")
    case (Inl e)
    with False g have "r = Inl e" "c' = c"
      by (auto simp: get_segment_chunk_def get_or_set_not_verified create_item_def
          as_producer_def)
    with Inl coh show ?thesis
      by (simp add: differ_on_segments_refl)
  next
    case (Inr bm)
    obtain buff m where bm: "bm = (buff, m)" by (cases bm)
    with Inr False g have r: "r = Inr (Some (BytesIO buff), Some m)"
      and c': "c' = c(SegmentChunkKey (segment_id s) k q
                 \<mapsto> Pickled (CacheItem (BytesIO buff) (Some m) (Some (get_checksum buff))))"
      by (auto simp: get_segment_chunk_def get_or_set_not_verified create_item_def
          as_producer_def)
    have "cache_coherent ev t c'"
      unfolding c' using cache_coherent_store [OF coh s inj] Inr bm by simp
    moreover have "differ_on_segments {s} q c c'"
      unfolding c' by (rule differ_on_segments_update) simp
    ultimately show ?thesis
      using Inr bm r by simp
  qed
qed

lemma read_chunk_of_source:
  assumes coh: "cache_coherent ev t c"
    and s: "s \<in> set (segment_set t)" and inj: "inj_on segment_id (set (segment_set t))"
    and g: "read_chunk_of ev t s q k c = (r, c')"
  shows "(case chunk_source ev t s q k of
            Inl e \<Rightarrow> r = Inl e
          | Inr d \<Rightarrow> (\<exists>m. r = Inr (d, m)))
       \<and> cache_coherent ev t c' \<and> differ_on_segments {s} q c c'"
proof (cases "storage_method (task_data t) = CACHE")
  case True
  with g have "get_segment_chunk ev t s k q c = (r, c')"
    by (simp add: read_chunk_of_def)
  from get_segment_chunk_coherent [OF coh s inj this] True show ?thesis
    by (auto simp: chunk_source_def split: sum.splits)
next
  case False
  with g coh show ?thesis
    by (auto simp: read_chunk_of_def chunk_source_def Let_def differ_on_segments_refl
        split: option.splits)
qed

lemma load_source:
  assumes coh: "cache_coherent ev t c"
    and s: "s \<in> set (segment_set t)" and inj: "inj_on segment_id (set (segment_set t))"
    and ok: "loader_ok ev t s q l"
    and g: "load ev (read_chunk_of ev t s q) k l c = (r, l', c')"
  shows "(case chunk_source ev t s q k of
            Inl e \<Rightarrow> r = Inl e
          | Inr d \<Rightarrow>
              (case open_chunk ev (reader_class l) d of
                 Inl e \<Rightarrow> r = Inl e
               | Inr items \<Rightarrow>
                   (\<exists>rd. r = Inr (Some rd) \<and> reader_items rd = items)
                   \<and> loader_ok ev t s q l'))
       \<and> reader_class l' = reader_class l
       \<and> cache_coherent ev t c' \<and> differ_on_segments {s} q c c'"
proof (cases "chunk_id l = Some k")
  case True
  with g have "r = Inr (chunk_reader l)" "l' = l" "c' = c"
    by (auto simp: load_def)
  with True ok coh show ?thesis
    by (auto simp: loader_ok_def differ_on_segments_refl)
next
  case False
  obtain r0 c0 where rc: "read_chunk_of ev t s q k c = (r0, c0)"
    by (cases "read_chunk_of ev t s q k c")
  note src = read_chunk_of_source [OF coh s inj rc]
  have cls: "reader_class ((unload l)\<lparr>chunk_id := Some k\<rparr>) = reader_class l"
    by (simp add: unload_fields)
  show ?thesis
  proof (cases "chunk_source ev t s q k")
    case (Inl e)
    with src have "r0 = Inl e" by simp
    with g False rc have "r = Inl e" "c' = c0" "l' = (unload l)\<lparr>chunk_id := Some k\<rparr>"
      by (auto simp: load_def Let_def)
    with Inl src cls show ?thesis by simp
  next
    case (Inr d)
    with src obtain m where r0: "r0 = Inr (d, m)" by auto
    show ?thesis
    proof (cases "open_chunk ev (reader_class l) d")
      case (Inl e)
      with g False rc r0 cls have "r = Inl e" "c' = c0" "l' = (unload l)\<lparr>chunk_id := Some k\<rparr>"
        by (auto simp: load_def Let_def)
      with Inl Inr src cls show ?thesis by simp
    next
      case items: (Inr items)
      let ?l1 = "(unload l)\<lparr>chunk_id := Some k\<rparr>"
      let ?rd = "\<lparr>reader_handle = length (history ?l1), reader_items = items\<rparr>"
      from g False rc r0 cls items have res: "r = Inr (Some ?rd)" "c' = c0"
        and l': "l' = ?l1\<lparr>chunk_reader := Some ?rd,
                          history := history ?l1 @ [Opened (reader_handle ?rd) k]\<rparr>"
        by (auto simp: load_def Let_def)
      have "loader_ok ev t s q l'"
        using ok Inr items by (simp add: loader_ok_def l' unload_fields)
      moreover have "reader_class l' = reader_class l"
        by (simp add: l' unload_fields)
      ultimately show ?thesis
        using Inr items res src by simp
    qed
  qed
qed

lemma get_frame_source:
  assumes coh: "cache_coherent ev t c"
    and s: "s \<in> set (segment_set t)" and inj: "inj_on segment_id (set (segment_set t))"
    and ok: "loader_ok ev t s q (loaders q)"
    and g: "SegmentFrameProvider_get_frame ev t s loaders f q BUFFER c = (r, loaders', c')"
  shows "(case segment_frame ev t s q f of
            Inl e \<Rightarrow> r = Inl e
          | Inr fr \<Rightarrow> (\<exists>res. r = Inr res \<and> meta_data res = fr)
                      \<and> loader_ok ev t s q (loaders' q))
       \<and> cache_coherent ev t c' \<and> differ_on_segments {s} q c c'"
proof (cases "SegmentFrameProvider_validate_frame_number (task_data t) s f")
  case (Inl e)
  with g coh show ?thesis
    by (auto simp: SegmentFrameProvider_get_frame_def segment_frame_def differ_on_segments_refl)
next
  case (Inr v)
  obtain a k ofs where v: "v = (a, k, ofs)" by (cases v)
  obtain r0 l0 c0 where ld: "load ev (read_chunk_of ev t s q) k (loaders q) c = (r0, l0, c0)"
    by (metis prod_cases3)
  note src = load_source [OF coh s inj ok ld]
  have rc: "reader_class (loaders q) = reader_class (SegmentFrameProvider_init (task_data t) q)"
    using ok by (simp add: loader_ok_def)
  show ?thesis
  proof (cases "chunk_source ev t s q k")
    case (Inl e)
    with src have "r0 = Inl e" by simp
    with g Inr v ld have "r = Inl e" "c' = c0"
      by (auto simp: SegmentFrameProvider_get_frame_def)
    with Inl Inr v src show ?thesis
      by (simp add: segment_frame_def)
  next
    case d: (Inr d)
    show ?thesis
    proof (cases "open_chunk ev (reader_class (loaders q)) d")
      case (Inl e)
      with src d have "r0 = Inl e" by simp
      with g Inr v ld have "r = Inl e" "c' = c0"
        by (auto simp: SegmentFrameProvider_get_frame_def)
      with Inl d Inr v src rc show ?thesis
        by (simp add: segment_frame_def)
    next
      case items: (Inr items)
      with src d obtain rd where r0: "r0 = Inr (Some rd)" and it: "reader_items rd = items"
        and ok0: "loader_ok ev t s q l0" and cl: "reader_class l0 = reader_class (loaders q)"
        by auto
      show ?thesis
      proof (cases "ofs < 0 \<or> int (length items) \<le> ofs")
        case True
        with g Inr v ld r0 it have "r = Inl IndexError" "c' = c0"
          by (auto simp: SegmentFrameProvider_get_frame_def)
        with True items d Inr v src rc show ?thesis
          by (simp add: segment_frame_def)
      next
        case False
        with g Inr v ld r0 it have
          "\<exists>res. r = Inr res
             \<and> meta_data res = convert_frame (fst (items ! nat ofs)) (reader_class l0) BUFFER"
          and "c' = c0" and "loaders' = loaders(q := l0)"
          by (auto simp: SegmentFrameProvider_get_frame_def Let_def
              split: prod.splits if_splits)
        with False items d Inr v src rc cl ok0 show ?thesis
          by (simp add: segment_frame_def)
      qed
    qed
  qed
qed

lemma segment_chunk_frames_source:
  assumes coh: "cache_coherent ev t c"
    and s: "s \<in> set (segment_set t)" and inj: "inj_on segment_id (set (segment_set t))"
    and ok: "loader_ok ev t s q (loaders q)"
    and g: "segment_chunk_frames ev t s q visit loaders c = (r, c')"
  shows "r = collect (map (segment_frame ev t s q)
                        (filter (\<lambda>f. f \<in> set (frame_set s)) visit))
       \<and> cache_coherent ev t c' \<and> differ_on_segments {s} q c c'"
  using coh ok g
proof (induction visit arbitrary: loaders c r c')
  case Nil
  then show ?case by (simp add: differ_on_segments_refl)
next
  case (Cons f rest)
  show ?case
  proof (cases "f \<in> set (frame_set s)")
    case False
    with Cons.prems(3) have "segment_chunk_frames ev t s q rest loaders c = (r, c')"
      by simp
    from Cons.IH [OF Cons.prems(1,2) this] False show ?thesis by simp
  next
    case True
    obtain r1 loaders1 c1 where
      gf: "SegmentFrameProvider_get_frame ev t s loaders f q BUFFER c = (r1, loaders1, c1)"
      by (metis prod_cases3)
    note src = get_frame_source [OF Cons.prems(1) s inj Cons.prems(2) gf]
    show ?thesis
    proof (cases "segment_frame ev t s q f")
      case (Inl e)
      with src have "r1 = Inl e" by simp
      with Cons.prems(3) True gf have "r = Inl e" "c' = c1" by auto
      with Inl True src show ?thesis by simp
    next
      case (Inr fr)
      with src obtain res where r1: "r1 = Inr res" "meta_data res = fr"
        and ok1: "loader_ok ev t s q (loaders1 q)" and coh1: "cache_coherent ev t c1"
        and d1: "differ_on_segments {s} q c c1"
        by auto
      obtain r2 c2 where rest: "segment_chunk_frames ev t s q rest loaders1 c1 = (r2, c2)"
        by (cases "segment_chunk_frames ev t s q rest loaders1 c1")
      note ih = Cons.IH [OF coh1 ok1 rest]
      from Cons.prems(3) True gf r1 rest have
        "r = (case r2 of Inl e \<Rightarrow> Inl e | Inr frs \<Rightarrow> Inr (fr # frs))" "c' = c2"
        by (auto split: sum.splits)
      with ih Inr True d1 show ?thesis
        by (auto intro: differ_on_segments_trans)
    qed
  qed
qed

lemma loader_ok_init:
  "loader_ok ev t s q (SegmentFrameProvider_init (task_data t) q)"
  by (cases q) (simp_all add: loader_ok_def SegmentFrameProvider_init_def ChunkLoader_init_def)

lemma joined_requests_Cons:
  "joined_requests (s # segs) visit
     = map (Pair s) (filter (\<lambda>f. f \<in> set (frame_set s)) visit) @ joined_requests segs visit"
  by (simp add: joined_requests_def)

lemma joined_chunk_frames_source:
  assumes coh: "cache_coherent ev t c"
    and sub: "set segs \<subseteq> set (segment_set t)"
    and inj: "inj_on segment_id (set (segment_set t))"
    and g: "joined_chunk_frames ev t q visit segs c = (r, c')"
  shows "r = collect (map (\<lambda>(s, f). segment_frame ev t s q f) (joined_requests segs visit))
       \<and> cache_coherent ev t c' \<and> differ_on_segments (set segs) q c c'"
  using coh sub g
proof (induction segs arbitrary: c r c')
  case Nil
  then show ?case by (simp add: joined_requests_def differ_on_segments_refl)
next
  case (Cons s segs)
  from Cons.prems(2) have s: "s \<in> set (segment_set t)" and sub': "set segs \<subseteq> set (segment_set t)"
    by auto
  obtain r1 c1 where
    g1: "segment_chunk_frames ev t s q visit (SegmentFrameProvider_init (task_data t)) c = (r1, c1)"
    by (cases "segment_chunk_frames ev t s q visit (SegmentFrameProvider_init (task_data t)) c")
  note src = segment_chunk_frames_source [OF Cons.prems(1) s inj loader_ok_init g1]
  have m: "map (\<lambda>(s, f). segment_frame ev t s q f)
             (map (Pair s) (filter (\<lambda>f. f \<in> set (frame_set s)) visit))
           = map (segment_frame ev t s q) (filter (\<lambda>f. f \<in> set (frame_set s)) visit)"
    by simp
  have d1: "differ_on_segments (set (s # segs)) q c c1"
    using src by (auto intro: differ_on_segments_mono)
  show ?case
  proof (cases r1)
    case (Inl e)
    with Cons.prems(3) g1 have "r = Inl e" "c' = c1" by auto
    with Inl src d1 show ?thesis
      by (simp add: joined_requests_Cons collect_append m del: map_map)
  next
    case (Inr frs)
    obtain r2 c2 where g2: "joined_chunk_frames ev t q visit segs c1 = (r2, c2)"
      by (cases "joined_chunk_frames ev t q visit segs c1")
    from src have coh1: "cache_coherent ev t c1" by simp
    note ih = Cons.IH [OF coh1 sub' g2]
    from Cons.prems(3) g1 Inr g2 have
      "r = (case r2 of Inl e \<Rightarrow> Inl e | Inr frs' \<Rightarrow> Inr (frs @ frs'))" "c' = c2"
      by (auto split: sum.splits)
    moreover have "differ_on_segments (set (s # segs)) q c c2"
      using d1 ih by (auto intro: differ_on_segments_trans differ_on_segments_mono)
    ultimately show ?thesis
      using ih Inr src
      by (simp add: joined_requests_Cons collect_append m del: map_map)
  qed
qed


lemma joined_request_ids:
  "map snd (joined_requests segs visit)
     = concat (map (\<lambda>s. filter (\<lambda>f. f \<in> set (frame_set s)) visit) segs)"
  by (induction segs) (simp_all add: joined_requests_def comp_def)

lemma set_joined_request_ids:
  "set (map snd (joined_requests segs visit))
     = {f \<in> set visit. \<exists>s \<in> set segs. f \<in> set (frame_set s)}"
  unfolding joined_request_ids by auto

lemma distinct_joined_request_ids:
  assumes "distinct visit"
    and "\<forall>f \<in> set visit. length (filter (\<lambda>s. f \<in> set (frame_set s)) segs) \<le> 1"
  shows "distinct (map snd (joined_requests segs visit))"
  unfolding joined_request_ids using assms(2)
proof (induction segs)
  case Nil
  then show ?case by simp
next
  case (Cons s segs)
  have le: "\<forall>f \<in> set visit. length (filter (\<lambda>s. f \<in> set (frame_set s)) segs) \<le> 1"
    using Cons.prems by (auto split: if_splits)
  have disj: "set (filter (\<lambda>f. f \<in> set (frame_set s)) visit)
                \<inter> set (concat (map (\<lambda>s. filter (\<lambda>f. f \<in> set (frame_set s)) visit) segs)) = {}"
  proof (rule ccontr)
    assume "\<not> ?thesis"
    then obtain f s' where f: "f \<in> set visit" "f \<in> set (frame_set s)"
      and s': "s' \<in> set segs" "f \<in> set (frame_set s')"
      by auto
    from s' have "filter (\<lambda>s. f \<in> set (frame_set s)) segs \<noteq> []"
      by (auto simp: filter_empty_conv)
    then have "0 < length (filter (\<lambda>s. f \<in> set (frame_set s)) segs)"
      by simp
    with f Cons.prems show False
      by (auto split: if_splits)
  qed
  from Cons.IH [OF le] disj assms(1) show ?case
    by simp
qed

lemma length_filter_matching_segments:
  assumes "f \<in> set frames"
  shows "length (filter (\<lambda>s. f \<in> set (frame_set s)) (matching_segments t frames))
           = length (filter (\<lambda>s. segment_type s = RANGE \<and> f \<in> set (frame_set s))
                       (segment_set t))"
proof -
  have "filter (\<lambda>s. f \<in> set (frame_set s)) (matching_segments t frames)
          = sort_key segment_start_frame
              (filter (\<lambda>s. f \<in> set (frame_set s))
                 (filter (\<lambda>s. segment_type s = RANGE
                            \<and> set frames \<inter> set (frame_set s) \<noteq> {}) (segment_set t)))"
    by (simp add: matching_segments_def filter_sort)
  moreover have "filter (\<lambda>s. f \<in> set (frame_set s))
                 (filter (\<lambda>s. segment_type s = RANGE
                            \<and> set frames \<inter> set (frame_set s) \<noteq> {}) (segment_set t))
          = filter (\<lambda>s. segment_type s = RANGE \<and> f \<in> set (frame_set s)) (segment_set t)"
    using assms by (auto intro: filter_cong)
  ultimately show ?thesis by simp
qed

lemma matching_segments_subset: "set (matching_segments t frames) \<subseteq> set (segment_set t)"
  by (auto simp: matching_segments_def)

lemma matching_segments_sorted:
  "sorted (map segment_start_frame (matching_segments t frames))"
  by (simp add: matching_segments_def)

lemma joined_ids_exact:
  assumes "set visit = set frames" and "distinct visit"
    and "\<forall>f \<in> set frames.
           length (filter (\<lambda>s. segment_type s = RANGE \<and> f \<in> set (frame_set s))
                     (segment_set t)) = 1"
  shows "set (map snd (joined_requests (matching_segments t frames) visit)) = set frames
       \<and> distinct (map snd (joined_requests (matching_segments t frames) visit))"
proof
  have one: "length (filter (\<lambda>s. f \<in> set (frame_set s)) (matching_segments t frames)) = 1"
    if "f \<in> set frames" for f
    using that assms(3) by (simp add: length_filter_matching_segments)
  have "\<exists>s \<in> set (matching_segments t frames). f \<in> set (frame_set s)" if "f \<in> set frames" for f
  proof -
    from one [OF that]
    have "filter (\<lambda>s. f \<in> set (frame_set s)) (matching_segments t frames) \<noteq> []"
      by auto
    then show ?thesis
      by (auto simp: filter_empty_conv)
  qed
  then show "set (map snd (joined_requests (matching_segments t frames) visit)) = set frames"
    unfolding set_joined_request_ids using assms(1) by auto
  show "distinct (map snd (joined_requests (matching_segments t frames) visit))"
    by (rule distinct_joined_request_ids [OF assms(2)]) (simp add: assms(1) one)
qed

lemma differ_on_segments_other_key:
  "differ_on_segments segs q c c' \<Longrightarrow> \<forall>sid k' q'. key \<noteq> SegmentChunkKey sid k' q'
   \<Longrightarrow> c' key = c key"
  unfolding differ_on_segments_def by blast

lemma joined_writer_quality:
  "(if writer_classes d q \<in> {Mpeg4ChunkWriter, ZipChunkWriter} then 100 else image_quality d)
     = (if q = ORIGINAL then 100 else image_quality d)"
  by (cases q) (simp_all add: writer_classes_def)

lemma joined_mime_type:
  "(if writer_classes d q \<in> {Mpeg4ChunkWriter, Mpeg4CompressedChunkWriter}
    then ''video/mp4'' else ''application/zip'')
     = get_chunk_mime_type_for_writer (writer_classes d q)"
  by (cases q) (simp_all add: writer_classes_def)

lemma get_chunk_joined:
  assumes "TaskFrameProvider_validate_chunk_number (task_data t) k = Inr k"
    and "frame_step (task_data t) \<noteq> 0"
    and "1 < length (matching_segments t (task_chunk_frame_range (task_data t) k))"
  shows "TaskFrameProvider_get_chunk ev t k q c =
      (case joined_chunk_frames ev t q (iter_set ev (task_chunk_frame_range (task_data t) k))
              (matching_segments t (task_chunk_frame_range (task_data t) k)) c of
         (Inl e, c2) \<Rightarrow> (Inl e, c2)
       | (Inr task_chunk_frames, c2) \<Rightarrow>
           (case save_as_chunk ev
                   \<lparr>writer_class = writer_classes (task_data t) q,
                    writer_quality = (if q = ORIGINAL then 100 else image_quality (task_data t)),
                    writer_dimension = (if dimension t = DIM_3D then Some DIM_3D else None),
                    compress_frames = Some False, zip_compress_level = Some 1\<rparr>
                   task_chunk_frames of
              Inl e \<Rightarrow> (Inl e, c2)
            | Inr buffer \<Rightarrow>
                (Inr (DataWithMeta (Some (BytesIO buffer))
                        (Some (get_chunk_mime_type_for_writer (writer_classes (task_data t) q)))
                        None), c2)))"
proof -
  have ne: "matching_segments t (task_chunk_frame_range (task_data t) k) \<noteq> []"
    "length (matching_segments t (task_chunk_frame_range (task_data t) k)) \<noteq> 1"
    using assms(3) by auto
  show ?thesis
    using assms(1,2) ne
    unfolding TaskFrameProvider_get_chunk_def Let_def joined_writer_quality joined_mime_type
    by (simp split del: if_split)
qed

lemma get_chunk_joined_cache:
  assumes "TaskFrameProvider_validate_chunk_number (task_data t) k = Inr k"
    and "frame_step (task_data t) \<noteq> 0"
    and "1 < length (matching_segments t (task_chunk_frame_range (task_data t) k))"
  shows "snd (TaskFrameProvider_get_chunk ev t k q c)
      = snd (joined_chunk_frames ev t q (iter_set ev (task_chunk_frame_range (task_data t) k))
              (matching_segments t (task_chunk_frame_range (task_data t) k)) c)"
  unfolding get_chunk_joined [OF assms]
  by (simp split: prod.splits sum.splits)

text \<open>
  C3, amended. Let chunk \<open>k\<close> be accepted by validation and let more than one \<open>RANGE\<close>
  segment meet its frame range; let the cache serve no stale segment chunk and the
  segments have distinct ids. Then
  (1) \<open>get_chunk\<close> reads, segment by segment, the frames \<open>segment_frame s f\<close> for the
  requests \<open>(s, f)\<close>: the matching segments in their sorted order and, for each, the
  visited ids of the chunk that the segment holds; it fails with the first failure of
  a read, and otherwise returns the container the writer of the quality builds from
  those frames (\<open>compress_frames = False\<close>, \<open>zip_compress_level = 1\<close>), with the
  writer's MIME type and no checksum;
  (2) the cache afterwards differs from the cache before at most under segment-chunk
  keys of the matching segments and of the quality: nothing is stored for the joined
  chunk, under a task key or any other key; and it still serves no stale segment chunk;
  (3) the matching segments are in ascending order of their start frame;
  (4) when the iteration visits each frame id of the chunk once and each of these ids
  belongs to exactly one \<open>RANGE\<close> segment, the ids that are read are exactly the frame
  ids of the chunk, each once.
\<close>

theorem joined_task_chunk:
  assumes "TaskFrameProvider_validate_chunk_number (task_data t) k = Inr k"
    and "frame_step (task_data t) \<noteq> 0"
    and "frames = task_chunk_frame_range (task_data t) k"
    and "matching = matching_segments t frames"
    and "1 < length matching"
    and "visit = iter_set ev frames"
    and "requests = joined_requests matching visit"
    and "cache_coherent ev t c"
    and "inj_on segment_id (set (segment_set t))"
    and "TaskFrameProvider_get_chunk ev t k q c = (res, c')"
  shows "(case collect (map (\<lambda>(s, f). segment_frame ev t s q f) requests) of
            Inl e \<Rightarrow> res = Inl e
          | Inr task_chunk_frames \<Rightarrow>
              (\<exists>w. writer_class w = writer_classes (task_data t) q
                 \<and> writer_quality w = (if q = ORIGINAL then 100 else image_quality (task_data t))
                 \<and> compress_frames w = Some False \<and> zip_compress_level w = Some 1
                 \<and> (case save_as_chunk ev w task_chunk_frames of
                      Inl e \<Rightarrow> res = Inl e
                    | Inr buffer \<Rightarrow>
                        res = Inr (DataWithMeta (Some (BytesIO buffer))
                                (Some (get_chunk_mime_type_for_writer
                                         (writer_classes (task_data t) q))) None))))
       \<and> differ_on_segments (set matching) q c c'
       \<and> (\<forall>key. (\<forall>sid k' q'. key \<noteq> SegmentChunkKey sid k' q') \<longrightarrow> c' key = c key)
       \<and> cache_coherent ev t c'
       \<and> sorted (map segment_start_frame matching)
       \<and> map snd requests
           = concat (map (\<lambda>s. filter (\<lambda>f. f \<in> set (frame_set s)) visit) matching)
       \<and> (set visit = set frames \<and> distinct visit
            \<and> (\<forall>f \<in> set frames.
                  length (filter (\<lambda>s. segment_type s = RANGE \<and> f \<in> set (frame_set s))
                            (segment_set t)) = 1)
            \<longrightarrow> set (map snd requests) = set frames \<and> distinct (map snd requests))"
proof -
  obtain r1 c1 where j: "joined_chunk_frames ev t q visit matching c = (r1, c1)"
    by (cases "joined_chunk_frames ev t q visit matching c")
  have sub: "set matching \<subseteq> set (segment_set t)"
    unfolding assms(4) by (rule matching_segments_subset)
  note src = joined_chunk_frames_source [OF assms(8) sub assms(9) j]
  have ne: "matching \<noteq> []" "length matching \<noteq> 1"
    using assms(5) by auto
  let ?w = "\<lparr>writer_class = writer_classes (task_data t) q,
             writer_quality = (if q = ORIGINAL then 100 else image_quality (task_data t)),
             writer_dimension = (if dimension t = DIM_3D then Some DIM_3D else None),
             compress_frames = Some False, zip_compress_level = Some 1\<rparr>"
  let ?mime = "get_chunk_mime_type_for_writer (writer_classes (task_data t) q)"
  have run: "TaskFrameProvider_get_chunk ev t k q c =
      (case joined_chunk_frames ev t q visit matching c of
         (Inl e, c2) \<Rightarrow> (Inl e, c2)
       | (Inr task_chunk_frames, c2) \<Rightarrow>
           (case save_as_chunk ev ?w task_chunk_frames of
              Inl e \<Rightarrow> (Inl e, c2)
            | Inr buffer \<Rightarrow>
                (Inr (DataWithMeta (Some (BytesIO buffer)) (Some ?mime) None), c2)))"
    unfolding assms(3,4,6)
    by (rule get_chunk_joined) (use assms(1,2,5) in \<open>simp_all add: assms(3,4)\<close>)
  have c': "c' = c1"
    using run assms(10) j by (auto split: sum.splits)
  have first: "case collect (map (\<lambda>(s, f). segment_frame ev t s q f) requests) of
            Inl e \<Rightarrow> res = Inl e
          | Inr task_chunk_frames \<Rightarrow>
              (\<exists>w. writer_class w = writer_classes (task_data t) q
                 \<and> writer_quality w = (if q = ORIGINAL then 100 else image_quality (task_data t))
                 \<and> compress_frames w = Some False \<and> zip_compress_level w = Some 1
                 \<and> (case save_as_chunk ev w task_chunk_frames of
                      Inl e \<Rightarrow> res = Inl e
                    | Inr buffer \<Rightarrow>
                        res = Inr (DataWithMeta (Some (BytesIO buffer)) (Some ?mime) None)))"
  proof (cases r1)
    case (Inl e)
    with run assms(10) j have "res = Inl e" by simp
    with Inl src show ?thesis by (simp add: assms(7))
  next
    case (Inr frs)
    have "case save_as_chunk ev ?w frs of
                      Inl e \<Rightarrow> res = Inl e
                    | Inr buffer \<Rightarrow>
                        res = Inr (DataWithMeta (Some (BytesIO buffer)) (Some ?mime) None)"
    proof (cases "save_as_chunk ev ?w frs")
      case (Inl e)
      with run assms(10) j Inr show ?thesis by simp
    next
      case buf: (Inr buffer)
      with run assms(10) j Inr show ?thesis by simp
    qed
    then have "\<exists>w. writer_class w = writer_classes (task_data t) q
                 \<and> writer_quality w = (if q = ORIGINAL then 100 else image_quality (task_data t))
                 \<and> compress_frames w = Some False \<and> zip_compress_level w = Some 1
                 \<and> (case save_as_chunk ev w frs of
                      Inl e \<Rightarrow> res = Inl e
                    | Inr buffer \<Rightarrow>
                        res = Inr (DataWithMeta (Some (BytesIO buffer)) (Some ?mime) None))"
      by (intro exI [where x = ?w]) simp
    moreover have "collect (map (\<lambda>(s, f). segment_frame ev t s q f) requests) = Inr frs"
      using src Inr by (simp add: assms(7))
    ultimately show ?thesis by simp
  qed
  have d: "differ_on_segments (set matching) q c c'"
    using src c' by simp
  have other: "\<forall>key. (\<forall>sid k' q'. key \<noteq> SegmentChunkKey sid k' q') \<longrightarrow> c' key = c key"
    using differ_on_segments_other_key [OF d] by blast
  have exact: "set visit = set frames \<and> distinct visit
            \<and> (\<forall>f \<in> set frames.
                  length (filter (\<lambda>s. segment_type s = RANGE \<and> f \<in> set (frame_set s))
                            (segment_set t)) = 1)
            \<longrightarrow> set (map snd requests) = set frames \<and> distinct (map snd requests)"
    unfolding assms(7) assms(4) using joined_ids_exact [of visit frames t] by blast
  have coh': "cache_coherent ev t c'"
    using src c' by simp
  have srt: "sorted (map segment_start_frame matching)"
    unfolding assms(4) by (rule matching_segments_sorted)
  have ids: "map snd requests
           = concat (map (\<lambda>s. filter (\<lambda>f. f \<in> set (frame_set s)) visit) matching)"
    unfolding assms(7) by (rule joined_request_ids)
  from first d other coh' srt ids exact show ?thesis
    by (intro conjI)
qed

lemma get_frame_stores_chunk:
  assumes "storage_method (task_data t) = CACHE"
    and "SegmentFrameProvider_validate_frame_number (task_data t) s f = Inr (a, k, ofs)"
    and "chunk_id (loaders q) \<noteq> Some k"
    and "\<not> verified_hit c (SegmentChunkKey (segment_id s) k q)"
    and "prepare_segment_chunk ev t s k q = Inr (buff, m)"
  shows "snd (snd (SegmentFrameProvider_get_frame ev t s loaders f q out_type c))
           = c(SegmentChunkKey (segment_id s) k q
                 \<mapsto> Pickled (CacheItem (BytesIO buff) (Some m) (Some (get_checksum buff))))"
proof -
  have rd: "read_chunk_of ev t s q k c
      = (Inr (Some (BytesIO buff), Some m),
         c(SegmentChunkKey (segment_id s) k q
             \<mapsto> Pickled (CacheItem (BytesIO buff) (Some m) (Some (get_checksum buff)))))"
    using assms(1,4,5)
    by (simp add: read_chunk_of_def get_segment_chunk_def get_or_set_not_verified
        create_item_def as_producer_def)
  have "snd (snd (load ev (read_chunk_of ev t s q) k (loaders q) c))
      = c(SegmentChunkKey (segment_id s) k q
             \<mapsto> Pickled (CacheItem (BytesIO buff) (Some m) (Some (get_checksum buff))))"
    using assms(3) by (simp add: load_def rd Let_def split: sum.splits)
  then show ?thesis
    using assms(2)
    by (auto simp: SegmentFrameProvider_get_frame_def Let_def
        split: prod.splits sum.splits option.splits if_splits)
qed

lemma segment_chunk_frames_skip:
  "\<forall>f \<in> set visit. f \<notin> set (frame_set s)
   \<Longrightarrow> segment_chunk_frames ev t s q visit loaders c = (Inr [], c)"
  by (induction visit) simp_all

lemma cache_coherent_empty: "cache_coherent ev t Map.empty"
  by (simp add: cache_coherent_def cache_get_def)

lemma example_checksums:
  "get_checksum [6] = 996231864"
  by code_simp

lemma example_chunk_2_of_segment_1:
  "prepare_segment_chunk example_env example_task example_segment_1 2 ORIGINAL
     = Inr ([6], ''application/zip'')"
  by code_simp

lemma example_frame_6:
  "SegmentFrameProvider_validate_frame_number example_data example_segment_1 6
     = Inr (6, 2, 0)"
  by code_simp

lemma example_visit: "iter_set example_env [6, 7, 8] = [8, 6, 7]"
  by code_simp

lemma example_chunk_2_range: "task_chunk_frame_range example_data 2 = [6, 7, 8]"
  by code_simp

lemma example_matching: "matching_segments example_task [6, 7, 8] = segment_set example_task"
  by code_simp

text \<open>
  C3, as stated, fails on the cache: with the storage method \<open>CACHE\<close> the frames of a
  joined chunk are read through the segments' loaders, and these store the segment
  chunks they build. After \<open>get_chunk\<close> for chunk 2 of the example task (frames 6, 7, 8
  over the segments 0..6 and 7..13) on an empty cache, the cache holds chunk 2 of the
  first segment.
\<close>

theorem joined_chunk_writes_segment_chunks:
  "snd (TaskFrameProvider_get_chunk example_env example_task 2 ORIGINAL Map.empty)
     (SegmentChunkKey 1 2 ORIGINAL)
   = Some (Pickled (CacheItem (BytesIO [6]) (Some ''application/zip'') (Some 996231864)))"
proof -
  let ?s1 = "example_segment_1"
  let ?s2 = "example_segment_2"
  let ?key = "SegmentChunkKey 1 2 ORIGINAL"
  let ?c1 = "(Map.empty :: key cache)(?key
               \<mapsto> Pickled (CacheItem (BytesIO [6]) (Some ''application/zip'') (Some 996231864)))"
  let ?init = "SegmentFrameProvider_init (task_data example_task)"
  have segs: "segment_set example_task = [?s1, ?s2]"
    by (simp add: example_task_def)
  have ids: "segment_id ?s1 = 1" "segment_id ?s2 = 2"
    by (simp_all add: example_segment_fields)
  have fs: "8 \<notin> set (frame_set ?s1)" "6 \<in> set (frame_set ?s1)" "7 \<notin> set (frame_set ?s1)"
    by (simp_all add: example_segment_fields)
  have inj: "inj_on segment_id (set (segment_set example_task))"
    by (auto simp: inj_on_def example_task_fields example_segment_fields)
  have gf: "snd (snd (SegmentFrameProvider_get_frame example_env example_task ?s1 ?init 6
                        ORIGINAL BUFFER Map.empty)) = ?c1"
    using get_frame_stores_chunk
      [where t = example_task and s = ?s1 and f = 6 and a = 6 and k = 2 and ofs = 0
         and loaders = ?init and q = ORIGINAL and c = Map.empty and ev = example_env
         and buff = "[6]" and m = "''application/zip''" and out_type = BUFFER]
    by (simp add: example_task_fields example_data_fields example_frame_6
        example_chunk_2_of_segment_1 example_checksums ids verified_hit_def cache_get_def
        SegmentFrameProvider_init_def ChunkLoader_init_def)
  have inner: "snd (segment_chunk_frames example_env example_task ?s1 ORIGINAL [8, 6, 7]
                      ?init Map.empty) = ?c1"
  proof -
    obtain r l c where g: "SegmentFrameProvider_get_frame example_env example_task ?s1 ?init 6
                        ORIGINAL BUFFER Map.empty = (r, l, c)"
      by (metis prod_cases3)
    with gf have c: "c = ?c1" by simp
    show ?thesis
      using fs g c
      by (cases r) (simp_all add: segment_chunk_frames_skip)
  qed
  obtain r1 c1 where s1: "segment_chunk_frames example_env example_task ?s1 ORIGINAL [8, 6, 7]
                      ?init Map.empty = (r1, c1)"
    by (cases "segment_chunk_frames example_env example_task ?s1 ORIGINAL [8, 6, 7]
                      ?init Map.empty")
  with inner have c1: "c1 = ?c1" by simp
  have s1in: "?s1 \<in> set (segment_set example_task)"
    by (simp add: example_task_fields)
  have coh1: "cache_coherent example_env example_task c1"
    using segment_chunk_frames_source [OF cache_coherent_empty s1in inj loader_ok_init s1]
    by simp
  have joined: "snd (joined_chunk_frames example_env example_task ORIGINAL [8, 6, 7]
                       [?s1, ?s2] Map.empty) ?key = ?c1 ?key"
  proof (cases r1)
    case (Inl e)
    with s1 c1 show ?thesis
      by simp
  next
    case (Inr frs)
    obtain r2 c2 where s2: "joined_chunk_frames example_env example_task ORIGINAL [8, 6, 7]
                       [?s2] c1 = (r2, c2)"
      by (cases "joined_chunk_frames example_env example_task ORIGINAL [8, 6, 7] [?s2] c1")
    have "differ_on_segments (set [?s2]) ORIGINAL c1 c2"
      using joined_chunk_frames_source [OF coh1 _ inj s2] segs by simp
    then have "c2 ?key = c1 ?key"
      unfolding differ_on_segments_def using ids by auto
    moreover have "snd (joined_chunk_frames example_env example_task ORIGINAL [8, 6, 7]
                       [?s1, ?s2] Map.empty) = c2"
      using s1 Inr s2
      by (cases r2) simp_all
    ultimately show ?thesis
      using c1 by simp
  qed
  have v: "TaskFrameProvider_validate_chunk_number example_data 2 = Inr 2"
    by (simp add: TaskFrameProvider_validate_chunk_number_def example_data_fields
        example_stop_chunk)
  have "snd (TaskFrameProvider_get_chunk example_env example_task 2 ORIGINAL Map.empty)
      = snd (joined_chunk_frames example_env example_task ORIGINAL [8, 6, 7]
               [?s1, ?s2] Map.empty)"
    using get_chunk_joined_cache
      [where t = example_task and k = 2 and ev = example_env and q = ORIGINAL
         and c = Map.empty]
    by (simp add: example_task_fields v example_data_fields example_chunk_2_range
        example_matching example_visit
        del: joined_chunk_frames.simps segment_chunk_frames.simps)
  with joined show ?thesis by simp
qed

lemma example_joined_frames:
  "collect (map (\<lambda>(s, f). segment_frame example_env example_task s ORIGINAL f)
              (joined_requests [example_segment_1, example_segment_2] [8, 6, 7]))
     = Inr [RawFrame 6, RawFrame 8, RawFrame 7]"
  by code_simp

theorem joined_task_chunk_witness:
  "fst (TaskFrameProvider_get_chunk example_env example_task 2 ORIGINAL Map.empty)
     = Inr (DataWithMeta (Some (BytesIO [6, 8, 7])) (Some ''application/zip'') None)
 \<and> snd (TaskFrameProvider_get_chunk example_env example_task 2 ORIGINAL Map.empty)
       (TaskChunkKey 1 2 ORIGINAL) = None
 \<and> set (map snd (joined_requests [example_segment_1, example_segment_2] [8, 6, 7])) = {6, 7, 8}
 \<and> distinct (map snd (joined_requests [example_segment_1, example_segment_2] [8, 6, 7]))"
proof -
  let ?res = "fst (TaskFrameProvider_get_chunk example_env example_task 2 ORIGINAL Map.empty)"
  let ?c' = "snd (TaskFrameProvider_get_chunk example_env example_task 2 ORIGINAL Map.empty)"
  have p1: "TaskFrameProvider_validate_chunk_number (task_data example_task) 2 = Inr 2"
    by (simp add: TaskFrameProvider_validate_chunk_number_def example_task_fields
        example_data_fields example_stop_chunk)
  have p2: "frame_step (task_data example_task) \<noteq> 0"
    by (simp add: example_task_fields example_data_fields)
  have p3: "[6, 7, 8] = task_chunk_frame_range (task_data example_task) 2"
    by (simp add: example_task_fields example_chunk_2_range)
  have p4: "[example_segment_1, example_segment_2] = matching_segments example_task [6, 7, 8]"
    by (simp add: example_matching example_task_fields)
  have p5: "1 < length [example_segment_1, example_segment_2]"
    by simp
  have p6: "[8, 6, 7] = iter_set example_env [6, 7, 8]"
    by (simp add: example_visit)
  have p9: "inj_on segment_id (set (segment_set example_task))"
    by (auto simp: inj_on_def example_task_fields example_segment_fields)
  have p10: "TaskFrameProvider_get_chunk example_env example_task 2 ORIGINAL Map.empty
               = (?res, ?c')"
    by simp
  note inst = joined_task_chunk [OF p1 p2 p3 p4 p5 p6 refl cache_coherent_empty p9 p10]
  have mime: "get_chunk_mime_type_for_writer (writer_classes (task_data example_task) ORIGINAL)
                = ''application/zip''"
    by (simp add: writer_classes_def example_task_fields example_data_fields)
  from inst have "?res = Inr (DataWithMeta (Some (BytesIO [6, 8, 7])) (Some ''application/zip'') None)"
    by (auto simp: example_joined_frames example_env_fields mime)
  moreover from inst have "?c' (TaskChunkKey 1 2 ORIGINAL) = None"
    by simp
  moreover have once: "set [8, 6, 7] = set [6, 7, 8 :: int] \<and> distinct [8, 6, 7 :: int]
         \<and> (\<forall>f \<in> set [6, 7, 8].
                length (filter (\<lambda>s. segment_type s = RANGE \<and> f \<in> set (frame_set s))
                          (segment_set example_task)) = 1)"
    by (auto simp: example_task_fields example_segment_fields)
  from inst once have "set (map snd (joined_requests [example_segment_1, example_segment_2]
                              [8, 6, 7])) = set [6, 7, 8]
         \<and> distinct (map snd (joined_requests [example_segment_1, example_segment_2] [8, 6, 7]))"
    by blast
  ultimately show ?thesis
    by auto
qed

lemma py_slice_chunk_nth:
  assumes "0 < cs" and "0 \<le> k" and "0 \<le> ofs" and "ofs < cs"
    and "k * cs + ofs < int (length xs)"
  shows "nat ofs < length (py_slice xs (cs * k) (cs * (k + 1)))
       \<and> py_slice xs (cs * k) (cs * (k + 1)) ! nat ofs = xs ! nat (k * cs + ofs)"
proof -
  let ?n = "int (length xs)"
  have k0: "0 \<le> cs * k" using assms(1,2) by simp
  have lo: "cs * k < ?n" using assms(3,5) by (simp add: mult.commute)
  have k1: "0 \<le> cs * (k + 1)" using assms(1,2) by simp
  have m: "ofs < min (cs * (k + 1)) ?n - cs * k"
    using assms(3,4,5) by (simp add: algebra_simps min_def)
  have sl: "py_slice xs (cs * k) (cs * (k + 1))
      = take (nat (min (cs * (k + 1)) ?n - cs * k)) (drop (nat (cs * k)) xs)"
    using k0 k1 lo unfolding py_slice_def Let_def
    by (simp add: min_def)
  have len: "nat ofs < min (nat (min (cs * (k + 1)) ?n - cs * k)) (length xs - nat (cs * k))"
    using m assms(3,5) k0 by (simp add: algebra_simps min_def nat_less_iff) linarith?
  have le: "nat (cs * k) \<le> length xs"
    using lo k0 by simp
  have e: "nat (cs * k) + nat ofs = nat (k * cs + ofs)"
    using k0 assms(3) by (simp add: nat_add_distrib mult.commute)
  have "drop (nat (cs * k)) xs ! nat ofs = xs ! (nat (cs * k) + nat ofs)"
    by (rule nth_drop [OF le])
  then have d: "drop (nat (cs * k)) xs ! nat ofs = xs ! nat (k * cs + ofs)"
    by (simp only: e)
  from len have "take (nat (min (cs * (k + 1)) ?n - cs * k)) (drop (nat (cs * k)) xs) ! nat ofs
      = drop (nat (cs * k)) xs ! nat ofs"
    by (intro nth_take) simp
  with d len show ?thesis
    unfolding sl by (simp only: length_take length_drop) simp
qed

lemma sorted_py_slice: "sorted xs \<Longrightarrow> sorted (py_slice xs i j)"
  by (simp add: py_slice_def Let_def sorted_wrt_take sorted_wrt_drop)

text \<open>
  The frame behind a read. For a \<open>RANGE\<close> segment of a task stored through the cache,
  with a positive chunk size and sorted frame ids, and a chunk reader that gives back,
  entry by entry, what the chunk writer of the quality was given (as \<open>g\<close> of each
  frame), the frame read for an id \<open>f\<close> of the segment is the raw frame \<open>f\<close> of the
  task, as stored and converted.
\<close>

lemma segment_frame_round_trip:
  assumes "storage_method (task_data t) = CACHE" and "segment_type s = RANGE"
    and "0 < chunk_size (task_data t)" and "sorted (frame_set s)"
    and "f \<in> set (frame_set s)"
    and "rc = reader_class (SegmentFrameProvider_init (task_data t) q)"
    and "\<And>frs. \<exists>bs. save_as_chunk ev
                        \<lparr>writer_class = writer_classes (task_data t) q,
                         writer_quality = (if q = ORIGINAL then 100
                                           else image_quality (task_data t)),
                         writer_dimension = (if dimension t = DIM_3D then Some DIM_3D
                                             else None),
                         compress_frames = None, zip_compress_level = None\<rparr> frs = Inr bs
                    \<and> open_chunk ev rc (Some (BytesIO bs)) = Inr (map g frs)"
  shows "segment_frame ev t s q f = Inr (convert_frame (fst (g (RawFrame f))) rc BUFFER)"
proof -
  let ?cs = "chunk_size (task_data t)"
  let ?idx = "int (index_of f (frame_set s))"
  let ?k = "?idx div ?cs"
  let ?o = "?idx mod ?cs"
  let ?ids = "py_slice (frame_set s) (?cs * ?k) (?cs * (?k + 1))"
  have v: "SegmentFrameProvider_validate_frame_number (task_data t) s f = Inr (f, ?k, ?o)"
    using assms(3,5) by (simp add: SegmentFrameProvider_validate_frame_number_def Let_def)
  have k: "0 \<le> ?k" using assms(3) by (simp add: pos_imp_zdiv_nonneg_iff)
  have o: "0 \<le> ?o" "?o < ?cs" using assms(3) by simp_all
  have idx: "?k * ?cs + ?o = ?idx" by simp
  have lt: "?k * ?cs + ?o < int (length (frame_set s))"
    unfolding idx using index_of_less [OF assms(5)] by simp
  note nth = py_slice_chunk_nth [OF assms(3) k o lt]
  have at: "?ids ! nat ?o = f"
    using nth unfolding idx by (simp add: index_of_nth [OF assms(5)])
  have srt: "sorted ?ids"
    by (rule sorted_py_slice [OF assms(4)])
  obtain bs where bs: "save_as_chunk ev
                        \<lparr>writer_class = writer_classes (task_data t) q,
                         writer_quality = (if q = ORIGINAL then 100
                                           else image_quality (task_data t)),
                         writer_dimension = (if dimension t = DIM_3D then Some DIM_3D
                                             else None),
                         compress_frames = None, zip_compress_level = None\<rparr>
                        (map RawFrame ?ids) = Inr bs"
    and op: "open_chunk ev rc (Some (BytesIO bs)) = Inr (map g (map RawFrame ?ids))"
    using assms(7) [of "map RawFrame ?ids"] by blast
  have src: "chunk_source ev t s q ?k = Inr (Some (BytesIO bs))"
    using assms(1,2) srt bs
    by (simp add: chunk_source_def prepare_segment_chunk_def prepare_range_segment_chunk_def
        read_raw_frames_def prepare_chunk_def Let_def)
  have len: "nat ?o < length ?ids" using nth by simp
  have "segment_frame ev t s q f
      = Inr (convert_frame (fst (map g (map RawFrame ?ids) ! nat ?o)) rc BUFFER)"
    using v src op o len assms(6)
    by (simp add: segment_frame_def Let_def)
  also have "map g (map RawFrame ?ids) ! nat ?o = g (RawFrame f)"
    using len at by simp
  finally show ?thesis .
qed


end
